theory Spec2Isabelle
  imports Main "HOL-Library.Word" "HOL-Library.Sublist" "HOL-Library.Multiset"
begin

text \<open>
  A model of the OpenAPI client generator: the parser (\<^verbatim>\<open>OpenAPIParser\<close>, with the
  interfaces of the document, in \<^verbatim>\<open>src/src/index.ts\<close>), the parts of the generator that
  compute types and names (\<^verbatim>\<open>TypeScriptClientGenerator\<close> in \<^verbatim>\<open>src/generator.ts\<close>)
  and the name sanitizer of \<^verbatim>\<open>ExampleGenerator\<close> (\<^verbatim>\<open>src/src/example-generator.ts\<close>).
  The definitions come first: the strings and objects of the language, the document,
  the functions of the source under their own names, the store of the objects that
  \<^verbatim>\<open>schemaToType\<close> and \<^verbatim>\<open>extractEndpoints\<close> create and change, then the properties the
  specification states and the example documents. The theorems follow, one section for
  each group of properties.
\<close>

section \<open>Strings of the JavaScript runtime\<close>

text \<open>
  A JavaScript string is a sequence of 16-bit code units. The regular expressions of the
  generator carry no \<^verbatim>\<open>u\<close> flag, so their character classes, \<^verbatim>\<open>charAt\<close>,
  \<^verbatim>\<open>slice\<close>, \<^verbatim>\<open>split\<close> and \<^verbatim>\<open>replace\<close> all work on code units. String
  literals of the source are written \<open>js ''...''\<close>.
\<close>

type_synonym code_unit = "16 word"

type_synonym jsstring = "code_unit list"

definition js :: "string \<Rightarrow> jsstring" where
  "js s = map of_char s"

definition isDigit :: "code_unit \<Rightarrow> bool" where
  "isDigit c = (0x30 \<le> c \<and> c \<le> 0x39)"

definition isLower :: "code_unit \<Rightarrow> bool" where
  "isLower c = (0x61 \<le> c \<and> c \<le> 0x7A)"

definition isUpper :: "code_unit \<Rightarrow> bool" where
  "isUpper c = (0x41 \<le> c \<and> c \<le> 0x5A)"

text \<open>The class \<^verbatim>\<open>[a-zA-Z0-9]\<close>.\<close>

definition isAlnum :: "code_unit \<Rightarrow> bool" where
  "isAlnum c = (isLower c \<or> isUpper c \<or> isDigit c)"

definition isAscii :: "code_unit \<Rightarrow> bool" where
  "isAscii c = (c < 0x80)"

text \<open>
  What the engine supplies and the repository does not: the Unicode case mappings of
  strings that hold a code unit outside ASCII, and the text of a number outside the range
  in which every integer is a double. They are parameters of the model; on ASCII strings
  and on integers up to \<open>2 ^ 53\<close> the functions below are written out.
\<close>

record runtime =
  upperNonAscii :: "jsstring \<Rightarrow> jsstring"
  lowerNonAscii :: "jsstring \<Rightarrow> jsstring"
  unsafeNumberText :: "int \<Rightarrow> jsstring"

definition lowerAscii :: "code_unit \<Rightarrow> code_unit" where
  "lowerAscii c = (if isUpper c then c + 0x20 else c)"

definition upperAscii :: "code_unit \<Rightarrow> code_unit" where
  "upperAscii c = (if isLower c then c - 0x20 else c)"

text \<open>\<^verbatim>\<open>String.prototype.toLowerCase\<close> and \<^verbatim>\<open>toUpperCase\<close>.\<close>

definition toLowerCase :: "runtime \<Rightarrow> jsstring \<Rightarrow> jsstring" where
  "toLowerCase rt s = (if list_all isAscii s then map lowerAscii s else lowerNonAscii rt s)"

definition toUpperCase :: "runtime \<Rightarrow> jsstring \<Rightarrow> jsstring" where
  "toUpperCase rt s = (if list_all isAscii s then map upperAscii s else upperNonAscii rt s)"

text \<open>\<^verbatim>\<open>s.charAt(0)\<close>: the first code unit as a string, the empty string when there is none.\<close>

definition charAt0 :: "jsstring \<Rightarrow> jsstring" where
  "charAt0 s = take 1 s"

text \<open>\<^verbatim>\<open>s.slice(1)\<close>.\<close>

definition slice1 :: "jsstring \<Rightarrow> jsstring" where
  "slice1 s = drop 1 s"

text \<open>\<^verbatim>\<open>xs.join(sep)\<close> on an array of strings.\<close>

fun join :: "jsstring \<Rightarrow> jsstring list \<Rightarrow> jsstring" where
  "join sep [] = []"
| "join sep [x] = x"
| "join sep (x # y # ys) = x @ sep @ join sep (y # ys)"

text \<open>
  \<^verbatim>\<open>s.replace(pat, rep)\<close> with a string pattern: only the first occurrence is replaced,
  wherever it starts. The generator calls it with the empty replacement, in which no
  \<^verbatim>\<open>$\<close> pattern can occur.
\<close>

fun replaceFirst :: "jsstring \<Rightarrow> jsstring \<Rightarrow> jsstring \<Rightarrow> jsstring" where
  "replaceFirst pat rep [] = (if pat = [] then rep else [])"
| "replaceFirst pat rep (c # cs) =
     (if prefix pat (c # cs) then rep @ drop (length pat) (c # cs)
      else c # replaceFirst pat rep cs)"

text \<open>\<^verbatim>\<open>s.split(sep)\<close> with a separator of one code unit.\<close>

fun split :: "code_unit \<Rightarrow> jsstring \<Rightarrow> jsstring list" where
  "split sep [] = [[]]"
| "split sep (c # cs) =
     (if c = sep then [] # split sep cs
      else (case split sep cs of [] \<Rightarrow> [[c]] | p # ps \<Rightarrow> (c # p) # ps))"

section \<open>Objects and Maps\<close>

text \<open>
  An object with string keys is the list of its own properties in the order they were
  created (the order of the JSON text, for a parsed document), with distinct keys.
  A property read \<^verbatim>\<open>o[k]\<close> is \<open>map_of o k\<close>. Enumeration (\<^verbatim>\<open>Object.keys\<close>,
  \<^verbatim>\<open>Object.entries\<close>) follows the own-property order of the language
  (\<^verbatim>\<open>OrdinaryOwnPropertyKeys\<close>): the keys that are array indices come first, in
  ascending numeric order, then every other string key in creation order. An array index
  is a canonical numeral (decimal digits, no leading zero unless it is \<^verbatim>\<open>0\<close> itself)
  of value at most \<open>2 ^ 32 - 2\<close>; so \<^verbatim>\<open>Object.keys({"500": a, "404": b, "x": c})\<close> is
  \<^verbatim>\<open>["404", "500", "x"]\<close>.
\<close>

type_synonym 'v object = "(jsstring \<times> 'v) list"

definition decimalValue :: "jsstring \<Rightarrow> nat" where
  "decimalValue s = foldl (\<lambda>acc c. 10 * acc + unat (c - 0x30)) 0 s"

definition isArrayIndex :: "jsstring \<Rightarrow> bool" where
  "isArrayIndex k =
     (k \<noteq> [] \<and> list_all isDigit k \<and> (k = js ''0'' \<or> hd k \<noteq> 0x30)
      \<and> decimalValue k \<le> 4294967294)"

definition Object_entries :: "'v object \<Rightarrow> (jsstring \<times> 'v) list" where
  "Object_entries obj =
     sort_key (\<lambda>kv. decimalValue (fst kv)) (filter (\<lambda>kv. isArrayIndex (fst kv)) obj)
     @ filter (\<lambda>kv. \<not> isArrayIndex (fst kv)) obj"

definition Object_keys :: "'v object \<Rightarrow> jsstring list" where
  "Object_keys obj = map fst (Object_entries obj)"

text \<open>
  A \<^verbatim>\<open>Map\<close> is the list of its entries in insertion order. \<^verbatim>\<open>set\<close> replaces the value
  of a key that is present, in place, and appends a new key; \<^verbatim>\<open>get\<close> is \<open>map_of\<close>.
\<close>

fun Map_set :: "jsstring \<Rightarrow> 'v \<Rightarrow> (jsstring \<times> 'v) list \<Rightarrow> (jsstring \<times> 'v) list" where
  "Map_set k v [] = [(k, v)]"
| "Map_set k v ((k', v') # m) = (if k' = k then (k, v) # m else (k', v') # Map_set k v m)"

section \<open>The document (the interfaces of types.ts, in src/src/index.ts)\<close>

text \<open>
  The variants of \<^verbatim>\<open>Schema\<close>, in the order of the declaration. Only the fields the
  generator reads are kept (\<^verbatim>\<open>format\<close>, \<^verbatim>\<open>default\<close> and
  \<^verbatim>\<open>additionalProperties\<close> are never read). \<open>OtherSchema\<close> stands for a node of the
  untyped JSON input that is none of the declared variants.
\<close>

datatype schema =
    StringSchema "jsstring list option"
  | NumberSchema
  | IntegerSchema
  | BooleanSchema
  | ArraySchema schema
  | ObjectSchema "(jsstring \<times> schema) list option" "jsstring list option"
  | RefSchema jsstring
  | OneOf "schema list"
  | AllOf "schema list"
  | AnyOf "schema list"
  | OtherSchema

datatype location = Query | Header | Path | Cookie

record parameter =
  p_name :: jsstring
  p_in :: location
  p_required :: "bool option"
  p_description :: "jsstring option"
  p_schema :: "schema option"
  p_style :: "jsstring option"

record mediaType =
  mt_schema :: "schema option"

record requestBody =
  rb_required :: "bool option"
  rb_content :: "mediaType object"

record response =
  r_description :: jsstring
  r_content :: "mediaType object option"

record operation =
  op_operationId :: "jsstring option"
  op_summary :: "jsstring option"
  op_description :: "jsstring option"
  op_parameters :: "parameter list option"
  op_requestBody :: "requestBody option"
  op_responses :: "response object"
  op_tags :: "jsstring list option"

record pathItem =
  pi_get :: "operation option"
  pi_post :: "operation option"
  pi_put :: "operation option"
  pi_patch :: "operation option"
  pi_delete :: "operation option"
  pi_parameters :: "parameter list option"

datatype httpMethod = GET | POST | PUT | PATCH | DELETE

record endpoint =
  e_method :: httpMethod
  e_path :: jsstring
  e_operationId :: jsstring
  e_summary :: "jsstring option"
  e_description :: "jsstring option"
  e_parameters :: "parameter list"
  e_requestBody :: "requestBody option"
  e_responses :: "response object"
  e_tags :: "jsstring list option"

record info =
  i_title :: jsstring
  i_version :: jsstring
  i_description :: "jsstring option"

record components =
  c_schemas :: "schema object option"
  c_parameters :: "parameter object option"

record openAPISpec =
  s_openapi :: jsstring
  s_info :: info
  s_servers :: "(jsstring \<times> jsstring option) list option"
  s_paths :: "pathItem object"
  s_components :: "components option"

section \<open>The parser (class OpenAPIParser of parser.ts, in src/src/index.ts)\<close>

text \<open>The two fields of \<^verbatim>\<open>OpenAPIParser\<close>: the document and the \<^verbatim>\<open>Map\<close> of schemas.\<close>

record parser =
  spec :: openAPISpec
  schemas :: "(jsstring \<times> schema) list"

definition loadSchemas :: "openAPISpec \<Rightarrow> (jsstring \<times> schema) list" where
  "loadSchemas sp =
     (case s_components sp of
        None \<Rightarrow> []
      | Some comps \<Rightarrow>
          (case c_schemas comps of
             None \<Rightarrow> []
           | Some ss \<Rightarrow> fold (\<lambda>(name, s) m. Map_set name s m) (Object_entries ss) []))"

definition newParser :: "openAPISpec \<Rightarrow> parser" where
  "newParser sp = \<lparr>spec = sp, schemas = loadSchemas sp\<rparr>"

definition schemasPrefix :: jsstring where
  "schemasPrefix = js ''#/components/schemas/''"

text \<open>
  \<^verbatim>\<open>resolveSchema\<close>: a node with \<^verbatim>\<open>$ref\<close> is looked up under the name left after
  removing the path; \<^verbatim>\<open>this.schemas.get(schemaName) || schema\<close> falls back to the node
  itself when the name is absent (a schema is an object, hence truthy).
\<close>

definition resolveSchema :: "parser \<Rightarrow> schema \<Rightarrow> schema" where
  "resolveSchema p s =
     (case s of
        RefSchema ref \<Rightarrow>
          (let schemaName = replaceFirst schemasPrefix [] ref
           in (case map_of (schemas p) schemaName of Some target \<Rightarrow> target | None \<Rightarrow> s))
      | _ \<Rightarrow> s)"

text \<open>
  \<^verbatim>\<open>generateOperationId\<close>: the path is split at \<^verbatim>\<open>/\<close>, the empty parts are dropped
  (\<^verbatim>\<open>filter(Boolean)\<close>), the braces are removed from each part
  (\<^verbatim>\<open>replace(/[{}]/g, '')\<close>), the first code unit of each part is put in upper case,
  and the parts are joined after the method in lower case.
\<close>

definition removeBraces :: "jsstring \<Rightarrow> jsstring" where
  "removeBraces part = filter (\<lambda>c. c \<noteq> 0x7B \<and> c \<noteq> 0x7D) part"

definition capitalize :: "runtime \<Rightarrow> jsstring \<Rightarrow> jsstring" where
  "capitalize rt part = toUpperCase rt (charAt0 part) @ slice1 part"

definition generateOperationId :: "runtime \<Rightarrow> jsstring \<Rightarrow> jsstring \<Rightarrow> jsstring" where
  "generateOperationId rt method path =
     (let pathParts =
            map (capitalize rt) (map removeBraces (filter (\<lambda>part. part \<noteq> []) (split 0x2F path)))
      in toLowerCase rt method @ join [] pathParts)"

text \<open>The five literals of the array \<^verbatim>\<open>methods\<close>, in its order, and \<^verbatim>\<open>pathItem[method]\<close>.\<close>

definition methodName :: "httpMethod \<Rightarrow> jsstring" where
  "methodName m =
     (case m of GET \<Rightarrow> js ''get'' | POST \<Rightarrow> js ''post'' | PUT \<Rightarrow> js ''put''
      | PATCH \<Rightarrow> js ''patch'' | DELETE \<Rightarrow> js ''delete'')"

definition methods :: "httpMethod list" where
  "methods = [GET, POST, PUT, PATCH, DELETE]"

definition pathItemOperation :: "pathItem \<Rightarrow> httpMethod \<Rightarrow> operation option" where
  "pathItemOperation item m =
     (case m of GET \<Rightarrow> pi_get item | POST \<Rightarrow> pi_post item | PUT \<Rightarrow> pi_put item
      | PATCH \<Rightarrow> pi_patch item | DELETE \<Rightarrow> pi_delete item)"

text \<open>\<^verbatim>\<open>xs || []\<close> on an optional array: an array is truthy, also when empty.\<close>

definition orEmpty :: "'a list option \<Rightarrow> 'a list" where
  "orEmpty xs = (case xs of None \<Rightarrow> [] | Some ys \<Rightarrow> ys)"

text \<open>
  The body of the inner loop of \<^verbatim>\<open>extractEndpoints\<close> for an operation that is present:
  \<^verbatim>\<open>operation.operationId || this.generateOperationId(method, path)\<close> (the empty string
  is falsy, so it is replaced like a missing one), the two parameter arrays spread into
  one, and the object pushed.
\<close>

definition buildEndpoint ::
  "runtime \<Rightarrow> httpMethod \<Rightarrow> jsstring \<Rightarrow> pathItem \<Rightarrow> operation \<Rightarrow> endpoint" where
  "buildEndpoint rt m path item operation =
     (let operationId =
            (case op_operationId operation of
               None \<Rightarrow> generateOperationId rt (methodName m) path
             | Some oid \<Rightarrow> if oid = [] then generateOperationId rt (methodName m) path else oid);
          allParameters = orEmpty (pi_parameters item) @ orEmpty (op_parameters operation)
      in \<lparr>e_method = m, e_path = path, e_operationId = operationId,
          e_summary = op_summary operation, e_description = op_description operation,
          e_parameters = allParameters, e_requestBody = op_requestBody operation,
          e_responses = op_responses operation, e_tags = op_tags operation\<rparr>)"

text \<open>
  \<^verbatim>\<open>extractEndpoints\<close>: the two nested loops, over \<^verbatim>\<open>Object.entries(this.spec.paths)\<close>
  and over \<^verbatim>\<open>methods\<close>, with \<^verbatim>\<open>continue\<close> for a method that is absent and
  \<^verbatim>\<open>push\<close> for one that is present.
\<close>

definition extractEndpoints :: "runtime \<Rightarrow> parser \<Rightarrow> endpoint list" where
  "extractEndpoints rt p =
     fold (\<lambda>(path, item) endpoints.
             fold (\<lambda>m endpoints.
                     (case pathItemOperation item m of
                        None \<Rightarrow> endpoints
                      | Some operation \<Rightarrow> endpoints @ [buildEndpoint rt m path item operation]))
                  methods endpoints)
          (Object_entries (s_paths (spec p))) []"

definition isReference :: "schema \<Rightarrow> bool" where
  "isReference s = (case s of RefSchema ref \<Rightarrow> True | _ \<Rightarrow> False)"

section \<open>The generator (class TypeScriptClientGenerator, src/generator.ts)\<close>

text \<open>The template \<^verbatim>\<open>"${v}"\<close>: the value between two double quotes (code unit \<open>0x22\<close>).\<close>

definition quote :: "jsstring \<Rightarrow> jsstring" where
  "quote v = [0x22] @ v @ [0x22]"

text \<open>\<^verbatim>\<open>resolved.required?.includes(key)\<close>, read as a condition.\<close>

definition isRequired :: "jsstring list option \<Rightarrow> jsstring \<Rightarrow> bool" where
  "isRequired required key = (case required of None \<Rightarrow> False | Some rs \<Rightarrow> key \<in> set rs)"

text \<open>
  \<^verbatim>\<open>schemaToType\<close>. The method calls itself, and nothing in its text bounds how often;
  the first argument is the depth of call stack left, and \<open>None\<close> is a call that does
  not return within it (the engine raises \<^verbatim>\<open>RangeError\<close> when its stack is used up,
  and nothing in the generator catches it). The branches are in the order of the
  source: a \<^verbatim>\<open>$ref\<close> in the resolved node, the \<^verbatim>\<open>switch\<close> on \<^verbatim>\<open>type\<close>, the three
  combinators, the fallback. \<^verbatim>\<open>new Set(visited)\<close> with \<^verbatim>\<open>add\<close> is \<open>insert\<close>.
\<close>

fun schemaToType :: "nat \<Rightarrow> parser \<Rightarrow> schema \<Rightarrow> jsstring set \<Rightarrow> jsstring option" where
  "schemaToType 0 p s visited = None"
| "schemaToType (Suc depth) p s visited =
     (case resolveSchema p s of
        RefSchema ref \<Rightarrow>
          (let typeName = replaceFirst schemasPrefix [] ref
           in if typeName \<in> visited then Some typeName
              else (case map_of (schemas p) typeName of
                      Some referencedSchema \<Rightarrow>
                        schemaToType depth p referencedSchema (insert typeName visited)
                    | None \<Rightarrow> Some typeName))
      | StringSchema enum \<Rightarrow>
          (case enum of
             Some vs \<Rightarrow> Some (join (js '' | '') (map quote vs))
           | None \<Rightarrow> Some (js ''string''))
      | NumberSchema \<Rightarrow> Some (js ''number'')
      | IntegerSchema \<Rightarrow> Some (js ''number'')
      | BooleanSchema \<Rightarrow> Some (js ''boolean'')
      | ArraySchema items \<Rightarrow>
          map_option (\<lambda>t. js ''Array<'' @ t @ js ''>'') (schemaToType depth p items visited)
      | ObjectSchema properties required \<Rightarrow>
          (case properties of
             None \<Rightarrow> Some (js ''Record<string, unknown>'')
           | Some ps \<Rightarrow>
               map_option (\<lambda>props. js ''{'' @ [0x0A] @ join [0x0A] props @ [0x0A] @ js ''}'')
                 (those (map (\<lambda>(key, value).
                    map_option
                      (\<lambda>t. js ''  '' @ key @ (if isRequired required key then [] else js ''?'')
                            @ js '': '' @ t @ js '';'')
                      (schemaToType depth p value visited))
                  (Object_entries ps))))
      | OneOf members \<Rightarrow>
          map_option (join (js '' | ''))
            (those (map (\<lambda>m. schemaToType depth p m visited) members))
      | AllOf members \<Rightarrow>
          map_option (join (js '' & ''))
            (those (map (\<lambda>m. schemaToType depth p m visited) members))
      | AnyOf members \<Rightarrow>
          map_option (join (js '' | ''))
            (those (map (\<lambda>m. schemaToType depth p m visited) members))
      | OtherSchema \<Rightarrow> Some (js ''unknown''))"

text \<open>
  \<^verbatim>\<open>parseInt(s)\<close> with no radix: white space is skipped, then a sign, then
  \<^verbatim>\<open>0x\<close> or \<^verbatim>\<open>0X\<close> selects radix 16; the value is that of the longest run of digits,
  and \<open>None\<close> (\<^verbatim>\<open>NaN\<close>) when the run is empty. The value is kept as the exact
  integer. The engine holds the double nearest to it; rounding to the nearest double is
  monotone and 400 is a double, so the comparison \<^verbatim>\<open>>= 400\<close> has the same result on
  both. \<open>digitValue\<close> is 36 on a code unit that is no digit of any radix.
\<close>

definition isStrWhiteSpace :: "code_unit \<Rightarrow> bool" where
  "isStrWhiteSpace c =
     (c \<in> {0x09, 0x0A, 0x0B, 0x0C, 0x0D, 0x20, 0xA0, 0x1680, 0x2028, 0x2029, 0x202F,
            0x205F, 0x3000, 0xFEFF}
      \<or> (0x2000 \<le> c \<and> c \<le> 0x200A))"

definition digitValue :: "code_unit \<Rightarrow> nat" where
  "digitValue c =
     (if isDigit c then unat (c - 0x30)
      else if isLower c then unat (c - 0x61) + 10
      else if isUpper c then unat (c - 0x41) + 10
      else 36)"

definition parseInt :: "jsstring \<Rightarrow> int option" where
  "parseInt s =
     (let t = dropWhile isStrWhiteSpace s;
          negative = (take 1 t = [0x2D]);
          u = (if take 1 t = [0x2B] \<or> take 1 t = [0x2D] then drop 1 t else t);
          hex = (take 2 u = js ''0x'' \<or> take 2 u = js ''0X'');
          radix = (if hex then 16 else 10);
          ds = takeWhile (\<lambda>c. digitValue c < radix) (if hex then drop 2 u else u)
      in if ds = [] then None
         else Some ((if negative then - 1 else 1)
                    * int (foldl (\<lambda>acc c. radix * acc + digitValue c) 0 ds)))"

text \<open>
  The text of a number (\<^verbatim>\<open>`${n}`\<close>, and each element in \<^verbatim>\<open>join\<close>): the decimal
  digits for an integer up to \<open>2 ^ 53\<close> in size, the engine's text of the nearest double
  beyond, \<^verbatim>\<open>NaN\<close> for \<open>None\<close>.
\<close>

fun decimalDigits :: "nat \<Rightarrow> jsstring" where
  "decimalDigits n =
     (if n < 10 then [0x30 + of_nat n]
      else decimalDigits (n div 10) @ [0x30 + of_nat (n mod 10)])"

declare decimalDigits.simps [simp del]

definition numberText :: "runtime \<Rightarrow> int option \<Rightarrow> jsstring" where
  "numberText rt x =
     (case x of
        None \<Rightarrow> js ''NaN''
      | Some n \<Rightarrow>
          if \<bar>n\<bar> \<le> 2 ^ 53
          then (if n < 0 then 0x2D # decimalDigits (nat (- n)) else decimalDigits (nat n))
          else unsafeNumberText rt n)"

text \<open>\<^verbatim>\<open>parseInt(status) >= 400\<close>; a comparison with \<^verbatim>\<open>NaN\<close> is false.\<close>

definition isErrorStatus :: "jsstring \<Rightarrow> bool" where
  "isErrorStatus status = (case parseInt status of None \<Rightarrow> False | Some n \<Rightarrow> 400 \<le> n)"

definition extractErrorTypes :: "runtime \<Rightarrow> response object \<Rightarrow> jsstring option" where
  "extractErrorTypes rt responses =
     (let errorStatuses = map parseInt (filter isErrorStatus (Object_keys responses))
      in if length errorStatuses = 0 then None
         else if length errorStatuses = 1 then Some (numberText rt (errorStatuses ! 0))
         else Some (join (js '' | '') (map (numberText rt) errorStatuses)))"

text \<open>
  The return type in the signature that \<^verbatim>\<open>generateEndpointMethod\<close> writes:
  \<^verbatim>\<open>Promise<ApiResult<TResponse${errorTypes ? `, ${errorTypes}` : ''}>>\<close>, where the
  empty string is falsy like \<^verbatim>\<open>null\<close>.
\<close>

definition methodReturnType :: "runtime \<Rightarrow> response object \<Rightarrow> jsstring" where
  "methodReturnType rt responses =
     js ''Promise<ApiResult<TResponse''
     @ (case extractErrorTypes rt responses of
          None \<Rightarrow> []
        | Some errorTypes \<Rightarrow> if errorTypes = [] then [] else js '', '' @ errorTypes)
     @ js ''>>''"

text \<open>
  \<^verbatim>\<open>extractResponseType\<close>. \<^verbatim>\<open>a || b\<close> on optional objects is the first that is
  present; \<^verbatim>\<open>r?.content?.['application/json']?.schema\<close> is the schema when every link
  of the chain is present. The first argument is the depth of stack left for the call
  of \<^verbatim>\<open>schemaToType\<close>.
\<close>

definition orElse :: "'a option \<Rightarrow> 'a option \<Rightarrow> 'a option" where
  "orElse a b = (case a of None \<Rightarrow> b | Some x \<Rightarrow> Some x)"

definition jsonSchema :: "response option \<Rightarrow> schema option" where
  "jsonSchema r =
     (case r of
        None \<Rightarrow> None
      | Some resp \<Rightarrow>
          (case r_content resp of
             None \<Rightarrow> None
           | Some content \<Rightarrow>
               (case map_of content (js ''application/json'') of
                  None \<Rightarrow> None
                | Some media \<Rightarrow> mt_schema media)))"

definition extractResponseType :: "nat \<Rightarrow> parser \<Rightarrow> response object \<Rightarrow> jsstring option" where
  "extractResponseType depth p responses =
     (let successResponse =
            orElse (map_of responses (js ''200''))
              (orElse (map_of responses (js ''201'')) (map_of responses (js ''204'')))
      in (case jsonSchema successResponse of
            Some s \<Rightarrow> schemaToType depth p (resolveSchema p s) {}
          | None \<Rightarrow> Some (js ''unknown'')))"

text \<open>
  \<^verbatim>\<open>sanitizeMethodName\<close>, one replacement after the other:
  \<^verbatim>\<open>/[^a-zA-Z0-9]/g\<close> by an underscore; \<^verbatim>\<open>/^[0-9]/\<close> by an underscore and the digit;
  \<^verbatim>\<open>/([a-z])([A-Z])/g\<close> by the two letters with an underscore between, scanning from
  the left and going on after the pair that matched; then \<^verbatim>\<open>toLowerCase\<close>.
\<close>

definition replaceNonAlnum :: "jsstring \<Rightarrow> jsstring" where
  "replaceNonAlnum s = map (\<lambda>c. if isAlnum c then c else 0x5F) s"

definition escapeLeadingDigit :: "jsstring \<Rightarrow> jsstring" where
  "escapeLeadingDigit s =
     (case s of [] \<Rightarrow> [] | c # cs \<Rightarrow> if isDigit c then 0x5F # c # cs else c # cs)"

fun splitCamel :: "jsstring \<Rightarrow> jsstring" where
  "splitCamel (a # b # cs) =
     (if isLower a \<and> isUpper b then a # 0x5F # b # splitCamel cs
      else a # splitCamel (b # cs))"
| "splitCamel cs = cs"

definition sanitizeMethodName :: "runtime \<Rightarrow> jsstring \<Rightarrow> jsstring" where
  "sanitizeMethodName rt name =
     toLowerCase rt (splitCamel (escapeLeadingDigit (replaceNonAlnum name)))"

text \<open>The method of the same name in \<^verbatim>\<open>ExampleGenerator\<close> (example-generator.ts).\<close>

definition sanitizeMethodName_ExampleGenerator :: "runtime \<Rightarrow> jsstring \<Rightarrow> jsstring" where
  "sanitizeMethodName_ExampleGenerator rt name =
     toLowerCase rt (splitCamel (escapeLeadingDigit (replaceNonAlnum name)))"

text \<open>
  The nodes written directly inside a node (the items of an array, the property schemas
  of an object, the members of a combinator), and the nodes written anywhere inside it.
  A reference has nothing inside: what it names is in the registry.
\<close>

inductive child :: "schema \<Rightarrow> schema \<Rightarrow> bool" where
  child_items: "child (ArraySchema items) items"
| child_property: "(key, value) \<in> set ps \<Longrightarrow> child (ObjectSchema (Some ps) required) value"
| child_oneOf: "m \<in> set members \<Longrightarrow> child (OneOf members) m"
| child_allOf: "m \<in> set members \<Longrightarrow> child (AllOf members) m"
| child_anyOf: "m \<in> set members \<Longrightarrow> child (AnyOf members) m"

inductive contains :: "schema \<Rightarrow> schema \<Rightarrow> bool" where
  contains_child: "child s c \<Longrightarrow> contains s c"
| contains_deeper: "child s c \<Longrightarrow> contains c d \<Longrightarrow> contains s d"

section \<open>The objects that the two methods create and change\<close>

text \<open>
  \<^verbatim>\<open>schemaToType\<close> and \<^verbatim>\<open>extractEndpoints\<close> work on objects: the parser, which holds
  the document (\<^verbatim>\<open>this.spec\<close>) and the registry (\<^verbatim>\<open>this.schemas\<close>); the \<^verbatim>\<open>Set\<close>
  objects that carry the traversal path; the array that \<^verbatim>\<open>extractEndpoints\<close> fills.
  The store holds these objects. A set and an array are known by their position in the
  store, as an object of the language is known by its reference: \<^verbatim>\<open>new Set()\<close>,
  \<^verbatim>\<open>new Set(visited)\<close> and the array literal \<^verbatim>\<open>[]\<close> put a new object after those
  that are there, \<^verbatim>\<open>add\<close> and \<^verbatim>\<open>push\<close> change the object they are called on, and
  every other object stays as it is. A \<^verbatim>\<open>Set\<close> keeps its elements in the order in which
  they were added. A reference is only ever obtained from the creation of its object, so
  no position outside the store is looked up. Strings, and the arrays of strings that
  \<^verbatim>\<open>map\<close> builds and \<^verbatim>\<open>join\<close> consumes at once, are values.
\<close>

record store =
  st_parser :: parser
  st_sets :: "jsstring list list"
  st_arrays :: "endpoint list list"

text \<open>\<^verbatim>\<open>new Set()\<close> and \<^verbatim>\<open>new Set(visited)\<close>, with the reference of the new object.\<close>

definition newSet :: "store \<Rightarrow> nat \<times> store" where
  "newSet h = (length (st_sets h), h\<lparr>st_sets := st_sets h @ [[]]\<rparr>)"

definition copySet :: "nat \<Rightarrow> store \<Rightarrow> nat \<times> store" where
  "copySet r h = (length (st_sets h), h\<lparr>st_sets := st_sets h @ [st_sets h ! r]\<rparr>)"

text \<open>\<^verbatim>\<open>visited.has(x)\<close> and \<^verbatim>\<open>newVisited.add(x)\<close>.\<close>

definition Set_has :: "nat \<Rightarrow> jsstring \<Rightarrow> store \<Rightarrow> bool" where
  "Set_has r x h = (x \<in> set (st_sets h ! r))"

definition Set_add :: "nat \<Rightarrow> jsstring \<Rightarrow> store \<Rightarrow> store" where
  "Set_add r x h =
     h\<lparr>st_sets := (st_sets h)[r := (if x \<in> set (st_sets h ! r) then st_sets h ! r
                                     else st_sets h ! r @ [x])]\<rparr>"

text \<open>
  The array literal \<^verbatim>\<open>[]\<close> of \<^verbatim>\<open>const endpoints: Endpoint[] = []\<close>,
  \<^verbatim>\<open>endpoints.push(e)\<close>, and the elements of an array that a caller reads.
\<close>

definition newArray :: "store \<Rightarrow> nat \<times> store" where
  "newArray h = (length (st_arrays h), h\<lparr>st_arrays := st_arrays h @ [[]]\<rparr>)"

definition Array_push :: "nat \<Rightarrow> endpoint \<Rightarrow> store \<Rightarrow> store" where
  "Array_push r e h = h\<lparr>st_arrays := (st_arrays h)[r := st_arrays h ! r @ [e]]\<rparr>"

definition Array_values :: "nat \<Rightarrow> store \<Rightarrow> endpoint list" where
  "Array_values r h = st_arrays h ! r"

text \<open>
  \<^verbatim>\<open>xs.map(f)\<close> for a callback that works on the store: the elements are taken from
  left to right, each call starts from the store that the call before it left, and a call
  that does not return ends the whole.
\<close>

fun mapStore ::
  "('a \<Rightarrow> store \<Rightarrow> ('b \<times> store) option) \<Rightarrow> 'a list \<Rightarrow> store
   \<Rightarrow> ('b list \<times> store) option" where
  "mapStore f [] h = Some ([], h)"
| "mapStore f (x # xs) h =
     (case f x h of
        None \<Rightarrow> None
      | Some (y, h1) \<Rightarrow>
          (case mapStore f xs h1 of
             None \<Rightarrow> None
           | Some (ys, h2) \<Rightarrow> Some (y # ys, h2)))"

text \<open>
  \<^verbatim>\<open>schemaToType\<close> on the store, statement by statement as the method is written:
  \<^verbatim>\<open>visited\<close> is the reference of a set, \<^verbatim>\<open>new Set(visited)\<close> creates the set
  \<^verbatim>\<open>newVisited\<close>, \<^verbatim>\<open>newVisited.add(typeName)\<close> changes it, and the recursive call
  receives its reference. The result is the text with the store that the call leaves; as
  before, the first argument is the depth of call stack left and \<open>None\<close> is a call
  that does not return within it.
\<close>

fun schemaToType_store :: "nat \<Rightarrow> schema \<Rightarrow> nat \<Rightarrow> store \<Rightarrow> (jsstring \<times> store) option" where
  "schemaToType_store 0 s visited h = None"
| "schemaToType_store (Suc depth) s visited h =
     (case resolveSchema (st_parser h) s of
        RefSchema ref \<Rightarrow>
          (let typeName = replaceFirst schemasPrefix [] ref
           in if Set_has visited typeName h then Some (typeName, h)
              else (case map_of (schemas (st_parser h)) typeName of
                      Some referencedSchema \<Rightarrow>
                        (let (newVisited, h1) = copySet visited h;
                             h2 = Set_add newVisited typeName h1
                         in schemaToType_store depth referencedSchema newVisited h2)
                    | None \<Rightarrow> Some (typeName, h)))
      | StringSchema enum \<Rightarrow>
          (case enum of
             Some vs \<Rightarrow> Some (join (js '' | '') (map quote vs), h)
           | None \<Rightarrow> Some (js ''string'', h))
      | NumberSchema \<Rightarrow> Some (js ''number'', h)
      | IntegerSchema \<Rightarrow> Some (js ''number'', h)
      | BooleanSchema \<Rightarrow> Some (js ''boolean'', h)
      | ArraySchema items \<Rightarrow>
          map_option (\<lambda>(t, h'). (js ''Array<'' @ t @ js ''>'', h'))
            (schemaToType_store depth items visited h)
      | ObjectSchema properties required \<Rightarrow>
          (case properties of
             None \<Rightarrow> Some (js ''Record<string, unknown>'', h)
           | Some ps \<Rightarrow>
               map_option
                 (\<lambda>(props, h'). (js ''{'' @ [0x0A] @ join [0x0A] props @ [0x0A] @ js ''}'', h'))
                 (mapStore (\<lambda>(key, value) h.
                    map_option
                      (\<lambda>(t, h'). (js ''  '' @ key
                                    @ (if isRequired required key then [] else js ''?'')
                                    @ js '': '' @ t @ js '';'', h'))
                      (schemaToType_store depth value visited h))
                  (Object_entries ps) h))
      | OneOf members \<Rightarrow>
          map_option (\<lambda>(ts, h'). (join (js '' | '') ts, h'))
            (mapStore (\<lambda>m h. schemaToType_store depth m visited h) members h)
      | AllOf members \<Rightarrow>
          map_option (\<lambda>(ts, h'). (join (js '' & '') ts, h'))
            (mapStore (\<lambda>m h. schemaToType_store depth m visited h) members h)
      | AnyOf members \<Rightarrow>
          map_option (\<lambda>(ts, h'). (join (js '' | '') ts, h'))
            (mapStore (\<lambda>m h. schemaToType_store depth m visited h) members h)
      | OtherSchema \<Rightarrow> Some (js ''unknown'', h))"

text \<open>
  A call from outside: \<^verbatim>\<open>this.schemaToType(schema)\<close>, whose default argument
  \<^verbatim>\<open>new Set()\<close> is evaluated at the call, and \<^verbatim>\<open>this.schemaToType(schema, new Set())\<close>.
\<close>

definition callSchemaToType :: "nat \<Rightarrow> schema \<Rightarrow> store \<Rightarrow> (jsstring \<times> store) option" where
  "callSchemaToType depth s h =
     (let (visited, h1) = newSet h in schemaToType_store depth s visited h1)"

text \<open>
  \<^verbatim>\<open>extractEndpoints\<close> on the store: the array \<^verbatim>\<open>endpoints\<close> is created, the two
  loops push onto it, and its reference is returned.
\<close>

definition extractEndpoints_store :: "runtime \<Rightarrow> store \<Rightarrow> nat \<times> store" where
  "extractEndpoints_store rt h =
     (let (endpoints, h1) = newArray h
      in (endpoints,
          fold (\<lambda>(path, item) h.
                  fold (\<lambda>m h.
                          (case pathItemOperation item m of
                             None \<Rightarrow> h
                           | Some operation \<Rightarrow>
                               Array_push endpoints (buildEndpoint rt m path item operation) h))
                       methods h)
               (Object_entries (s_paths (spec (st_parser h1)))) h1))"

section \<open>Properties stated by the specification\<close>

text \<open>The characters of a sanitized method name, and a name that does not start with a digit.\<close>

definition identChar :: "code_unit \<Rightarrow> bool" where
  "identChar c = (isLower c \<or> isDigit c \<or> c = 0x5F)"

definition noLeadingDigit :: "jsstring \<Rightarrow> bool" where
  "noLeadingDigit s = (case s of [] \<Rightarrow> True | c # cs \<Rightarrow> \<not> isDigit c)"

definition wordChar :: "code_unit \<Rightarrow> bool" where
  "wordChar c = (isAlnum c \<or> c = 0x5F)"

text \<open>
  The derived identifier in the specification's words: the method in lower case, then
  every part of the path between slashes, its braces removed and its first letter
  capitalized, in the order of the path.
\<close>

definition specOperationId :: "runtime \<Rightarrow> httpMethod \<Rightarrow> jsstring \<Rightarrow> jsstring" where
  "specOperationId rt m path =
     methodName m
     @ concat (map (\<lambda>segment. capitalize rt (removeBraces segment)) (split 0x2F path))"

text \<open>The endpoints of one path entry: one for each method that is present, in the order of \<open>methods\<close>.\<close>

definition endpointsOfPath :: "runtime \<Rightarrow> jsstring \<Rightarrow> pathItem \<Rightarrow> endpoint list" where
  "endpointsOfPath rt path item =
     concat (map (\<lambda>m. case pathItemOperation item m of
                         None \<Rightarrow> []
                       | Some operation \<Rightarrow> [buildEndpoint rt m path item operation]) methods)"

text \<open>
  The operations that a path entry declares, each with its method, in the order that
  the specification fixes: \<^verbatim>\<open>get\<close>, then \<^verbatim>\<open>post\<close>, then \<^verbatim>\<open>put\<close>, then \<^verbatim>\<open>patch\<close>, then
  \<^verbatim>\<open>delete\<close>; a method that the entry does not declare contributes nothing.
\<close>

definition presentOperations :: "pathItem \<Rightarrow> (httpMethod \<times> operation) list" where
  "presentOperations item =
     (case pi_get item of None \<Rightarrow> [] | Some operation \<Rightarrow> [(GET, operation)])
     @ (case pi_post item of None \<Rightarrow> [] | Some operation \<Rightarrow> [(POST, operation)])
     @ (case pi_put item of None \<Rightarrow> [] | Some operation \<Rightarrow> [(PUT, operation)])
     @ (case pi_patch item of None \<Rightarrow> [] | Some operation \<Rightarrow> [(PATCH, operation)])
     @ (case pi_delete item of None \<Rightarrow> [] | Some operation \<Rightarrow> [(DELETE, operation)])"

definition presentMethods :: "pathItem \<Rightarrow> httpMethod list" where
  "presentMethods item = map fst (presentOperations item)"

text \<open>
  The order of a list of endpoints, and the two orders it is compared with: the paths as
  the document declares them, and the paths as \<^verbatim>\<open>Object.entries\<close> enumerates them; in
  both, the methods of one path in the order \<^verbatim>\<open>get, post, put, patch, delete\<close>.
\<close>

definition endpointKeys :: "endpoint list \<Rightarrow> (jsstring \<times> httpMethod) list" where
  "endpointKeys es = map (\<lambda>e. (e_path e, e_method e)) es"

definition declaredOrder :: "pathItem object \<Rightarrow> (jsstring \<times> httpMethod) list" where
  "declaredOrder paths = concat (map (\<lambda>(path, item). map (Pair path) (presentMethods item)) paths)"

definition enumerationOrder :: "pathItem object \<Rightarrow> (jsstring \<times> httpMethod) list" where
  "enumerationOrder paths = declaredOrder (Object_entries paths)"

text \<open>
  The error statuses among a list of status keys, in the order of the list; the type
  written for them; and the error type as the specification states it, which takes the
  keys in the order the responses are declared.
\<close>

definition errorStatusesOf :: "jsstring list \<Rightarrow> int list" where
  "errorStatusesOf keys =
     concat (map (\<lambda>status. case parseInt status of
                              None \<Rightarrow> []
                            | Some n \<Rightarrow> if 400 \<le> n then [n] else []) keys)"

definition errorUnion :: "runtime \<Rightarrow> int list \<Rightarrow> jsstring option" where
  "errorUnion rt codes =
     (case codes of
        [] \<Rightarrow> None
      | [n] \<Rightarrow> Some (numberText rt (Some n))
      | _ \<Rightarrow> Some (join (js '' | '') (map (\<lambda>n. numberText rt (Some n)) codes)))"

definition declaredOrderErrorTypes :: "runtime \<Rightarrow> response object \<Rightarrow> jsstring option" where
  "declaredOrderErrorTypes rt responses = errorUnion rt (errorStatusesOf (map fst responses))"

text \<open>
  The success response as the specification states it: that of the first of the three
  keys that is present.
\<close>

definition successResponseOf :: "response object \<Rightarrow> response option" where
  "successResponseOf responses =
     (case filter (\<lambda>k. map_of responses k \<noteq> None) [js ''200'', js ''201'', js ''204''] of
        [] \<Rightarrow> None
      | k # ks \<Rightarrow> map_of responses k)"

text \<open>
  The JSON schema of a response that may be absent, as the specification states it: the
  schema listed under the media type \<^verbatim>\<open>application/json\<close> of its content, wherever that
  media type stands among the others; a response that is absent, has no content, does
  not list \<^verbatim>\<open>application/json\<close>, or lists it without a schema, has none.
\<close>

definition jsonSchemaOf :: "response option \<Rightarrow> schema option" where
  "jsonSchemaOf r =
     Option.bind r (\<lambda>resp.
       Option.bind (r_content resp) (\<lambda>content.
         Option.bind (map_of content (js ''application/json'')) mt_schema))"

text \<open>
  The type written for a response that may be absent, with the depth of stack given:
  that of its JSON schema, and \<^verbatim>\<open>unknown\<close> when it has none.
\<close>

definition typeOfResponse :: "nat \<Rightarrow> parser \<Rightarrow> response option \<Rightarrow> jsstring option" where
  "typeOfResponse depth p r =
     (case jsonSchemaOf r of
        Some s \<Rightarrow> schemaToType depth p (resolveSchema p s) {}
      | None \<Rightarrow> Some (js ''unknown''))"

text \<open>
  A store after a run, compared with the store before it: the parser, with its document
  and its registry, is the same, and every set and every array that was in the store is
  still there, at its position and with its elements; the run may have created new
  objects after them.
\<close>

definition preserved :: "store \<Rightarrow> store \<Rightarrow> bool" where
  "preserved h h' =
     (st_parser h' = st_parser h \<and> prefix (st_sets h) (st_sets h')
      \<and> prefix (st_arrays h) (st_arrays h'))"

section \<open>Example documents\<close>

definition emptySpec :: openAPISpec where
  "emptySpec =
     \<lparr>s_openapi = js ''3.0.0'',
      s_info = \<lparr>i_title = js ''Example'', i_version = js ''1.0.0'', i_description = None\<rparr>,
      s_servers = None, s_paths = [], s_components = None\<rparr>"

definition refTo :: "string \<Rightarrow> schema" where
  "refTo name = RefSchema (schemasPrefix @ js name)"

text \<open>\<^verbatim>\<open>A = {type: 'object', properties: {id: {type: 'number'}, parent: {$ref: A}}, required: ['id']}\<close>\<close>

definition selfBody :: schema where
  "selfBody = ObjectSchema (Some [(js ''id'', NumberSchema), (js ''parent'', refTo ''A'')])
                (Some [js ''id''])"

definition selfSpec :: openAPISpec where
  "selfSpec =
     emptySpec\<lparr>s_components :=
       Some \<lparr>c_schemas = Some [(js ''A'', selfBody)], c_parameters = None\<rparr>\<rparr>"

definition selfParser :: parser where
  "selfParser = newParser selfSpec"

text \<open>\<^verbatim>\<open>A = {type: 'object', properties: {b: {$ref: B}}}\<close>,
  \<^verbatim>\<open>B = {type: 'object', properties: {as: {type: 'array', items: {$ref: A}}}}\<close>\<close>

definition mutualA :: schema where
  "mutualA = ObjectSchema (Some [(js ''b'', refTo ''B'')]) None"

definition mutualB :: schema where
  "mutualB = ObjectSchema (Some [(js ''as'', ArraySchema (refTo ''A''))]) None"

definition mutualSpec :: openAPISpec where
  "mutualSpec =
     emptySpec\<lparr>s_components :=
       Some \<lparr>c_schemas = Some [(js ''A'', mutualA), (js ''B'', mutualB)],
             c_parameters = None\<rparr>\<rparr>"

definition mutualParser :: parser where
  "mutualParser = newParser mutualSpec"

text \<open>A registry with a schema without cycles, and two names that only rename each other.\<close>

definition petBody :: schema where
  "petBody = ObjectSchema
     (Some [(js ''id'', NumberSchema), (js ''name'', StringSchema None),
            (js ''status'', StringSchema (Some [js ''available'', js ''pending'', js ''sold'']))])
     (Some [js ''id'', js ''name''])"

definition petSpec :: openAPISpec where
  "petSpec =
     emptySpec\<lparr>s_components :=
       Some \<lparr>c_schemas =
               Some [(js ''Pet'', petBody), (js ''X'', refTo ''Y''), (js ''Y'', refTo ''X'')],
             c_parameters = None\<rparr>\<rparr>"

definition petParser :: parser where
  "petParser = newParser petSpec"

text \<open>An engine for the examples; its three functions are never reached in them.\<close>

definition exampleRuntime :: runtime where
  "exampleRuntime =
     \<lparr>upperNonAscii = (\<lambda>s. s), lowerNonAscii = (\<lambda>s. s), unsafeNumberText = (\<lambda>n. js ''1e+21'')\<rparr>"

definition plainResponse :: "string \<Rightarrow> response" where
  "plainResponse d = \<lparr>r_description = js d, r_content = None\<rparr>"

definition jsonResponse :: "string \<Rightarrow> schema \<Rightarrow> response" where
  "jsonResponse d s =
     \<lparr>r_description = js d,
      r_content = Some [(js ''application/json'', \<lparr>mt_schema = Some s\<rparr>)]\<rparr>"

definition idParam :: "location \<Rightarrow> parameter" where
  "idParam loc =
     \<lparr>p_name = js ''id'', p_in = loc, p_required = Some True, p_description = None,
      p_schema = Some IntegerSchema, p_style = None\<rparr>"

text \<open>
  \<^verbatim>\<open>/users/{id}/posts\<close> declares a path parameter \<^verbatim>\<open>id\<close>; its \<^verbatim>\<open>get\<close> has no
  \<^verbatim>\<open>operationId\<close> and declares a query parameter of the same name; its \<^verbatim>\<open>post\<close> has
  an \<^verbatim>\<open>operationId\<close>. \<^verbatim>\<open>/pets\<close> has a \<^verbatim>\<open>get\<close>, and a \<^verbatim>\<open>delete\<close> whose
  \<^verbatim>\<open>operationId\<close> is the empty string.
\<close>

definition listPosts :: operation where
  "listPosts =
     \<lparr>op_operationId = None, op_summary = None, op_description = None,
      op_parameters = Some [idParam Query], op_requestBody = None,
      op_responses = [(js ''200'', plainResponse ''ok''), (js ''404'', plainResponse ''missing'')],
      op_tags = None\<rparr>"

definition createPost :: operation where
  "createPost =
     \<lparr>op_operationId = Some (js ''createPost''), op_summary = None, op_description = None,
      op_parameters = None, op_requestBody = None,
      op_responses = [(js ''201'', plainResponse ''created'')], op_tags = None\<rparr>"

definition postsItem :: pathItem where
  "postsItem =
     \<lparr>pi_get = Some listPosts, pi_post = Some createPost, pi_put = None, pi_patch = None,
      pi_delete = None, pi_parameters = Some [idParam Path]\<rparr>"

definition getPet :: operation where
  "getPet =
     \<lparr>op_operationId = Some (js ''getPet''), op_summary = None, op_description = None,
      op_parameters = None, op_requestBody = None,
      op_responses = [(js ''200'', jsonResponse ''a pet'' (refTo ''Pet'')),
                      (js ''404'', plainResponse ''missing'')],
      op_tags = None\<rparr>"

definition deletePet :: operation where
  "deletePet = getPet\<lparr>op_operationId := Some []\<rparr>"

definition petItem :: pathItem where
  "petItem =
     \<lparr>pi_get = Some getPet, pi_post = None, pi_put = None, pi_patch = None,
      pi_delete = Some deletePet, pi_parameters = None\<rparr>"

definition examplePaths :: "pathItem object" where
  "examplePaths = [(js ''/users/{id}/posts'', postsItem), (js ''/pets'', petItem)]"

definition exampleSpec :: openAPISpec where
  "exampleSpec =
     emptySpec\<lparr>s_paths := examplePaths,
       s_components := Some \<lparr>c_schemas = Some [(js ''Pet'', petBody)], c_parameters = None\<rparr>\<rparr>"

definition exampleParser :: parser where
  "exampleParser = newParser exampleSpec"

text \<open>
  A document whose first path declares all five methods, and whose second path declares
  \<^verbatim>\<open>patch\<close> and \<^verbatim>\<open>put\<close> only.
\<close>

definition namedOperation :: "string \<Rightarrow> operation" where
  "namedOperation name =
     \<lparr>op_operationId = Some (js name), op_summary = None, op_description = None,
      op_parameters = None, op_requestBody = None,
      op_responses = [(js ''200'', plainResponse ''ok'')], op_tags = None\<rparr>"

definition thingsItem :: pathItem where
  "thingsItem =
     \<lparr>pi_get = Some (namedOperation ''readThing''),
      pi_post = Some (namedOperation ''createThing''),
      pi_put = Some (namedOperation ''replaceThing''),
      pi_patch = Some (namedOperation ''amendThing''),
      pi_delete = Some (namedOperation ''removeThing''),
      pi_parameters = None\<rparr>"

definition editsItem :: pathItem where
  "editsItem =
     \<lparr>pi_get = None, pi_post = None,
      pi_put = Some (namedOperation ''replaceEdit''),
      pi_patch = Some (namedOperation ''amendEdit''),
      pi_delete = None, pi_parameters = None\<rparr>"

definition fullPaths :: "pathItem object" where
  "fullPaths = [(js ''/things'', thingsItem), (js ''/edits'', editsItem)]"

definition fullSpec :: openAPISpec where
  "fullSpec = emptySpec\<lparr>s_paths := fullPaths\<rparr>"

definition fullParser :: parser where
  "fullParser = newParser fullSpec"

text \<open>A document whose second path key is the numeral \<^verbatim>\<open>7\<close>.\<close>

definition numericPaths :: "pathItem object" where
  "numericPaths = [(js ''/pets'', petItem), (js ''7'', postsItem)]"

definition numericSpec :: openAPISpec where
  "numericSpec = emptySpec\<lparr>s_paths := numericPaths\<rparr>"

definition numericParser :: parser where
  "numericParser = newParser numericSpec"

text \<open>Responses declared with \<^verbatim>\<open>500\<close> before \<^verbatim>\<open>404\<close>, and responses without \<^verbatim>\<open>200\<close>.\<close>

definition unorderedResponses :: "response object" where
  "unorderedResponses =
     [(js ''200'', plainResponse ''ok''), (js ''500'', plainResponse ''broken''),
      (js ''404'', plainResponse ''missing'')]"

definition createdResponses :: "response object" where
  "createdResponses =
     [(js ''204'', jsonResponse ''none'' BooleanSchema),
      (js ''201'', jsonResponse ''created'' (refTo ''Pet''))]"

text \<open>
  Responses for the success type: a \<^verbatim>\<open>200\<close> whose content lists \<^verbatim>\<open>text/plain\<close> only; a
  \<^verbatim>\<open>200\<close> that lists \<^verbatim>\<open>text/plain\<close> first and \<^verbatim>\<open>application/json\<close> second; a \<^verbatim>\<open>200\<close>
  without content declared after a \<^verbatim>\<open>201\<close> with a JSON schema; and a \<^verbatim>\<open>204\<close> declared
  before a \<^verbatim>\<open>201\<close> that refers to \<^verbatim>\<open>Pet\<close>.
\<close>

definition textResponses :: "response object" where
  "textResponses =
     [(js ''200'',
       \<lparr>r_description = js ''ok'',
        r_content = Some [(js ''text/plain'', \<lparr>mt_schema = Some (StringSchema None)\<rparr>)]\<rparr>)]"

definition mixedResponses :: "response object" where
  "mixedResponses =
     [(js ''200'',
       \<lparr>r_description = js ''ok'',
        r_content = Some [(js ''text/plain'', \<lparr>mt_schema = Some (StringSchema None)\<rparr>),
                          (js ''application/json'', \<lparr>mt_schema = Some BooleanSchema\<rparr>)]\<rparr>)]"

definition shadowedResponses :: "response object" where
  "shadowedResponses =
     [(js ''201'', jsonResponse ''created'' BooleanSchema), (js ''200'', plainResponse ''ok'')]"

definition petCreatedResponses :: "response object" where
  "petCreatedResponses =
     [(js ''204'', jsonResponse ''none'' BooleanSchema),
      (js ''201'',
       \<lparr>r_description = js ''created'',
        r_content = Some [(js ''application/json'',
                           \<lparr>mt_schema = Some (RefSchema (js ''#/components/schemas/Pet''))\<rparr>)]\<rparr>)]"

text \<open>The stores of two parsers just constructed: no set and no array has been created.\<close>

definition petStore :: store where
  "petStore = \<lparr>st_parser = petParser, st_sets = [], st_arrays = []\<rparr>"

definition exampleStore :: store where
  "exampleStore = \<lparr>st_parser = exampleParser, st_sets = [], st_arrays = []\<rparr>"

section \<open>The registry of a document\<close>

text \<open>
  The registry that the constructor of the parser builds answers a lookup by name as
  the \<^verbatim>\<open>components.schemas\<close> object of the document does.
\<close>

lemma map_of_Map_set: "map_of (Map_set k v m) = (map_of m)(k \<mapsto> v)"
  by (induction m) (auto simp: fun_eq_iff)

lemma map_of_fold_Map_set:
  "map_of (fold (\<lambda>(name, s) m. Map_set name s m) entries m0) = map_of m0 ++ map_of (rev entries)"
proof (induction entries arbitrary: m0)
  case Nil
  show ?case by simp
next
  case (Cons e entries)
  obtain k v where e: "e = (k, v)" by (cases e)
  show ?case
    by (simp add: e Cons.IH map_of_Map_set fun_eq_iff map_add_def split: option.splits)
qed

lemma mset_Object_entries: "mset (Object_entries obj) = mset obj"
  by (simp add: Object_entries_def)

lemma distinct_keys_Object_entries:
  "distinct (map fst (Object_entries obj)) \<longleftrightarrow> distinct (map fst obj)"
  by (rule mset_eq_imp_distinct_iff) (simp add: mset_Object_entries)

lemma map_of_Object_entries:
  assumes "distinct (map fst obj)"
  shows "map_of (Object_entries obj) = map_of obj"
proof -
  have "set (Object_entries obj) = set obj"
    by (auto simp: Object_entries_def)
  with assms show ?thesis
    by (simp add: map_of_inject_set distinct_keys_Object_entries)
qed

lemma registry_of_document:
  assumes "s_components sp = Some comps" and "c_schemas comps = Some ss"
    and "distinct (map fst ss)"
  shows "map_of (schemas (newParser sp)) name = map_of ss name"
proof -
  have d: "distinct (map fst (rev (Object_entries ss)))"
    using assms(3) by (simp add: distinct_keys_Object_entries rev_map [symmetric])
  have "set (rev (Object_entries ss)) = set (Object_entries ss)" by simp
  with d have "map_of (rev (Object_entries ss)) = map_of (Object_entries ss)"
    by (subst map_of_inject_set) (simp_all add: distinct_keys_Object_entries assms(3))
  then show ?thesis
    using assms
    by (simp add: newParser_def loadSchemas_def map_of_fold_Map_set map_of_Object_entries)
qed

section \<open>The parsers of the example documents\<close>

lemma not_index_names:
  "\<not> isArrayIndex (js ''A'')" "\<not> isArrayIndex (js ''B'')" "\<not> isArrayIndex (js ''Pet'')"
  "\<not> isArrayIndex (js ''X'')" "\<not> isArrayIndex (js ''Y'')"
  by (simp_all add: isArrayIndex_def js_def isDigit_def)

lemma selfParser_eq: "selfParser = \<lparr>spec = selfSpec, schemas = [(js ''A'', selfBody)]\<rparr>"
  by (simp add: selfParser_def newParser_def loadSchemas_def selfSpec_def Object_entries_def
      not_index_names)

lemma mutualParser_eq:
  "mutualParser = \<lparr>spec = mutualSpec, schemas = [(js ''A'', mutualA), (js ''B'', mutualB)]\<rparr>"
  by (simp add: mutualParser_def newParser_def loadSchemas_def mutualSpec_def
      Object_entries_def not_index_names)
    (simp add: js_def)


lemma exampleParser_eq:
  "exampleParser = \<lparr>spec = exampleSpec, schemas = [(js ''Pet'', petBody)]\<rparr>"
  by (simp add: exampleParser_def newParser_def loadSchemas_def exampleSpec_def
      Object_entries_def not_index_names)

lemma numericParser_eq: "numericParser = \<lparr>spec = numericSpec, schemas = []\<rparr>"
  by (simp add: numericParser_def newParser_def loadSchemas_def numericSpec_def emptySpec_def)

lemma example_paths:
  "s_paths (spec exampleParser) = examplePaths" "s_paths (spec numericParser) = numericPaths"
  by (simp_all add: exampleParser_eq numericParser_eq exampleSpec_def numericSpec_def)

lemma fullParser_eq: "fullParser = \<lparr>spec = fullSpec, schemas = []\<rparr>"
  by (simp add: fullParser_def newParser_def loadSchemas_def fullSpec_def emptySpec_def)

lemma full_paths: "s_paths (spec fullParser) = fullPaths"
  by (simp add: fullParser_eq fullSpec_def)

section \<open>Facts about objects\<close>

lemma set_Object_entries: "set (Object_entries obj) = set obj"
  by (auto simp: Object_entries_def)

lemma map_insort_key:
  "map g (insort_key (\<lambda>x. f (g x)) x xs) = insort_key f (g x) (map g xs)"
  by (induction xs) simp_all

lemma map_sort_key: "map g (sort_key (\<lambda>x. f (g x)) xs) = sort_key f (map g xs)"
  by (induction xs) (simp_all add: map_insort_key)

lemma Object_keys_order:
  "Object_keys obj
   = sort_key decimalValue (filter isArrayIndex (map fst obj))
     @ filter (\<lambda>k. \<not> isArrayIndex k) (map fst obj)"
  by (simp add: Object_keys_def Object_entries_def map_sort_key filter_map comp_def)

lemma Object_keys_declared:
  assumes "sorted (map decimalValue (filter isArrayIndex (map fst obj)))"
    and "map fst obj = filter isArrayIndex (map fst obj) @ filter (\<lambda>k. \<not> isArrayIndex k) (map fst obj)"
  shows "Object_keys obj = map fst obj"
  using assms(2) by (simp add: Object_keys_order sort_key_id_if_sorted [OF assms(1)])

lemma Object_entries_no_index:
  "list_all (\<lambda>k. \<not> isArrayIndex k) (map fst obj) \<Longrightarrow> Object_entries obj = obj"
proof -
  assume "list_all (\<lambda>k. \<not> isArrayIndex k) (map fst obj)"
  then have no: "\<forall>kv \<in> set obj. \<not> isArrayIndex (fst kv)"
    by (simp add: list_all_iff)
  then have "filter (\<lambda>kv. isArrayIndex (fst kv)) obj = []"
    by (simp add: filter_empty_conv)
  moreover from no have "filter (\<lambda>kv. \<not> isArrayIndex (fst kv)) obj = obj"
    by (simp add: filter_id_conv)
  ultimately show ?thesis
    by (simp add: Object_entries_def)
qed

lemma slash_not_index: "take 1 k = js ''/'' \<Longrightarrow> \<not> isArrayIndex k"
  by (cases k) (simp_all add: isArrayIndex_def js_def isDigit_def)

section \<open>Facts about the string functions\<close>

lemma replaceFirst_prefix:
  "prefix pat s \<Longrightarrow> replaceFirst pat rep s = rep @ drop (length pat) s"
  by (cases s) auto



lemma strip_schemasPrefix: "replaceFirst schemasPrefix [] (schemasPrefix @ name) = name"
  by (simp add: replaceFirst_prefix)

section \<open>The reference resolver\<close>



section \<open>Type synthesis on cyclic registries\<close>

lemma those_None_mem: "None \<in> set xs \<Longrightarrow> those xs = None"
  by (induction xs) (auto split: option.splits)

lemma child_not_reference: "child s c \<Longrightarrow> \<not> isReference s"
  by (auto simp: isReference_def elim: child.cases)

lemma resolveSchema_not_reference: "\<not> isReference s \<Longrightarrow> resolveSchema p s = s"
  by (cases s) (simp_all add: isReference_def resolveSchema_def)

lemma schemaToType_resolved:
  "\<not> isReference (resolveSchema p s) \<Longrightarrow>
   schemaToType depth p s visited = schemaToType depth p (resolveSchema p s) visited"
  by (cases depth) (simp_all add: resolveSchema_not_reference)

lemma schemaToType_child_None:
  assumes "child s c" and "schemaToType depth p c visited = None"
  shows "schemaToType (Suc depth) p s visited = None"
  using assms
proof (cases rule: child.cases)
  case (child_items)
  with assms(2) show ?thesis by (simp add: resolveSchema_def)
next
  case (child_property key ps required)
  have "None \<in> set (map (\<lambda>(key, value).
                    map_option
                      (\<lambda>t. js ''  '' @ key @ (if isRequired required key then [] else js ''?'')
                            @ js '': '' @ t @ js '';'')
                      (schemaToType depth p value visited)) (Object_entries ps))"
    using child_property(2) assms(2) by (force simp: set_Object_entries)
  then show ?thesis
    using child_property(1) by (simp add: resolveSchema_def those_None_mem)
next
  case (child_oneOf members)
  then have "None \<in> set (map (\<lambda>m. schemaToType depth p m visited) members)"
    using assms(2) by force
  then show ?thesis using child_oneOf(1) by (simp add: resolveSchema_def those_None_mem)
next
  case (child_allOf members)
  then have "None \<in> set (map (\<lambda>m. schemaToType depth p m visited) members)"
    using assms(2) by force
  then show ?thesis using child_allOf(1) by (simp add: resolveSchema_def those_None_mem)
next
  case (child_anyOf members)
  then have "None \<in> set (map (\<lambda>m. schemaToType depth p m visited) members)"
    using assms(2) by force
  then show ?thesis using child_anyOf(1) by (simp add: resolveSchema_def those_None_mem)
qed

lemma doomed_never_returns:
  assumes step: "\<And>s. s \<in> D \<Longrightarrow> \<exists>c. c \<in> D \<and> child (resolveSchema p s) c"
  shows "s \<in> D \<Longrightarrow> schemaToType depth p s visited = None"
proof (induction depth arbitrary: s visited)
  case 0
  show ?case by simp
next
  case (Suc depth)
  from step [OF Suc.prems] obtain c where c: "c \<in> D" "child (resolveSchema p s) c"
    by blast
  have "schemaToType depth p c visited = None"
    using Suc.IH [OF c(1)] .
  then have none: "schemaToType (Suc depth) p (resolveSchema p s) visited = None"
    using c(2) by (rule schemaToType_child_None [rotated])
  have "\<not> isReference (resolveSchema p s)"
    using c(2) by (rule child_not_reference)
  then have "schemaToType (Suc depth) p s visited
             = schemaToType (Suc depth) p (resolveSchema p s) visited"
    by (rule schemaToType_resolved)
  with none show ?case
    by (simp only:)
qed

lemma contains_first_step: "contains s t \<Longrightarrow> \<exists>c. child s c \<and> (c = t \<or> contains c t)"
  by (auto elim: contains.cases)


text \<open>The model does return on schemas without a cycle, and on names that rename each other.\<close>

lemma schemaToType_pet:
  "schemaToType 3 petParser (refTo ''Pet'') {}
   = Some (js ''{'' @ [0x0A] @ js ''  id: number;'' @ [0x0A] @ js ''  name: string;'' @ [0x0A]
           @ js ''  status?: '' @ quote (js ''available'') @ js '' | '' @ quote (js ''pending'')
           @ js '' | '' @ quote (js ''sold'') @ js '';'' @ [0x0A] @ js ''}'')"
  by code_simp

lemma schemaToType_alias_cycle: "schemaToType 3 petParser (refTo ''X'') {} = Some (js ''Y'')"
  by code_simp

text \<open>
  C1. The claim is that synthesis of a schema \<open>A\<close>, an object with a property that is a
  reference back to \<open>A\<close>, returns a finite expression with the bare name at the cyclic
  point. In the code the reference is resolved to the body of \<open>A\<close> before the test for
  \<^verbatim>\<open>$ref\<close>, so the visited set is neither read nor extended on the way round the
  cycle: whatever the depth of stack and whatever the visited set (the empty one of the
  claim included), neither the call on the body nor the call on a reference to \<open>A\<close>
  returns.
\<close>

theorem schemaToType_self_reference_never_returns:
  assumes reg: "map_of (schemas p) A = Some (ObjectSchema (Some props) required)"
    and mem: "(key, RefSchema (schemasPrefix @ A)) \<in> set props"
  shows "schemaToType depth p (ObjectSchema (Some props) required) visited = None
       \<and> schemaToType depth p (RefSchema (schemasPrefix @ A)) visited = None"
proof -
  let ?body = "ObjectSchema (Some props) required"
  let ?ref = "RefSchema (schemasPrefix @ A)"
  have res: "resolveSchema p ?ref = ?body" "resolveSchema p ?body = ?body"
    using reg by (simp_all add: resolveSchema_def strip_schemasPrefix)
  have ch: "child ?body ?ref"
    using mem by (rule child_property)
  have "\<And>s. s \<in> {?body, ?ref} \<Longrightarrow> \<exists>c. c \<in> {?body, ?ref} \<and> child (resolveSchema p s) c"
    using res ch by auto
  then have "\<And>s. s \<in> {?body, ?ref} \<Longrightarrow> schemaToType depth p s visited = None"
    by (rule doomed_never_returns)
  then show ?thesis by simp
qed


theorem schemaToType_self_reference_never_returns_witness:
  "map_of (schemas selfParser) (js ''A'')
     = Some (ObjectSchema (Some [(js ''id'', NumberSchema), (js ''parent'', refTo ''A'')])
              (Some [js ''id'']))
   \<and> (js ''parent'', RefSchema (schemasPrefix @ js ''A''))
       \<in> set [(js ''id'', NumberSchema), (js ''parent'', refTo ''A'')]
   \<and> schemaToType 100000 selfParser selfBody {} = None
   \<and> schemaToType 100000 selfParser (refTo ''A'') {} = None"
  using schemaToType_self_reference_never_returns
          [of selfParser "js ''A''" "[(js ''id'', NumberSchema), (js ''parent'', refTo ''A'')]"
              "Some [js ''id'']" "js ''parent''" 100000 "{}"]
  by (simp add: selfParser_eq selfBody_def refTo_def)

text \<open>
  C2. The claim is that synthesis of \<open>A\<close> returns, with one expansion of \<open>B\<close> in its
  result, when the body of \<open>A\<close> contains a reference to \<open>B\<close> and the body of \<open>B\<close> a
  reference to \<open>A\<close>. For the same reason as in C1 the call does not return, on the body
  of \<open>A\<close> or on a reference to \<open>A\<close>, whatever the depth of stack and the visited
  set.
\<close>

theorem schemaToType_mutual_reference_never_returns:
  assumes regA: "map_of (schemas p) A = Some bodyA"
    and regB: "map_of (schemas p) B = Some bodyB"
    and AB: "contains bodyA (RefSchema (schemasPrefix @ B))"
    and BA: "contains bodyB (RefSchema (schemasPrefix @ A))"
  shows "schemaToType depth p bodyA visited = None
       \<and> schemaToType depth p (RefSchema (schemasPrefix @ A)) visited = None"
proof -
  let ?rA = "RefSchema (schemasPrefix @ A)"
  let ?rB = "RefSchema (schemasPrefix @ B)"
  define D where "D = {s. s = ?rA \<or> s = ?rB \<or> contains s ?rA \<or> contains s ?rB}"
  have inner: "\<exists>c. c \<in> D \<and> child (resolveSchema p s) c" if "contains s t" "t = ?rA \<or> t = ?rB" for s t
  proof -
    from that(1) obtain c where c: "child s c" "c = t \<or> contains c t"
      using contains_first_step by blast
    from c(1) have "resolveSchema p s = s"
      by (simp add: child_not_reference resolveSchema_not_reference)
    moreover from c(2) that(2) have "c \<in> D"
      unfolding D_def by blast
    ultimately show ?thesis using c(1) by auto
  qed
  have res: "resolveSchema p ?rA = bodyA" "resolveSchema p ?rB = bodyB"
    using regA regB by (simp_all add: resolveSchema_def strip_schemasPrefix)
  have step: "\<exists>c. c \<in> D \<and> child (resolveSchema p s) c" if sD: "s \<in> D" for s
  proof -
    consider "s = ?rA" | "s = ?rB" | "contains s ?rA" | "contains s ?rB"
      using sD unfolding D_def by blast
    then show ?thesis
    proof cases
      case 1
      obtain c where "child bodyA c" "c = ?rB \<or> contains c ?rB"
        using contains_first_step [OF AB] by blast
      then show ?thesis unfolding 1 res D_def by blast
    next
      case 2
      obtain c where "child bodyB c" "c = ?rA \<or> contains c ?rA"
        using contains_first_step [OF BA] by blast
      then show ?thesis unfolding 2 res D_def by blast
    next
      case 3
      then show ?thesis by (rule inner) simp
    next
      case 4
      then show ?thesis by (rule inner) simp
    qed
  qed
  have inD: "bodyA \<in> D" "?rA \<in> D"
    using AB unfolding D_def by simp_all
  have "schemaToType depth p bodyA visited = None"
    using step inD(1) by (rule doomed_never_returns)
  moreover have "schemaToType depth p ?rA visited = None"
    using step inD(2) by (rule doomed_never_returns)
  ultimately show ?thesis ..
qed


theorem schemaToType_mutual_reference_never_returns_witness:
  "map_of (schemas mutualParser) (js ''A'') = Some mutualA
   \<and> map_of (schemas mutualParser) (js ''B'') = Some mutualB
   \<and> contains mutualA (RefSchema (schemasPrefix @ js ''B''))
   \<and> contains mutualB (RefSchema (schemasPrefix @ js ''A''))
   \<and> schemaToType 100000 mutualParser mutualA {} = None
   \<and> schemaToType 100000 mutualParser (refTo ''A'') {} = None"
proof -
  have A: "map_of (schemas mutualParser) (js ''A'') = Some mutualA"
    and B: "map_of (schemas mutualParser) (js ''B'') = Some mutualB"
    by (simp_all add: mutualParser_eq js_def)
  have AB: "contains mutualA (RefSchema (schemasPrefix @ js ''B''))"
    unfolding mutualA_def refTo_def
    by (rule contains_child, rule child_property [of "js ''b''"]) simp
  have "child mutualB (ArraySchema (RefSchema (schemasPrefix @ js ''A'')))"
    unfolding mutualB_def refTo_def
    by (rule child_property [of "js ''as''"]) simp
  then have BA: "contains mutualB (RefSchema (schemasPrefix @ js ''A''))"
    by (rule contains_deeper) (rule contains_child, rule child_items)
  from schemaToType_mutual_reference_never_returns [OF A B AB BA, of 100000 "{}"] A B AB BA
  show ?thesis by (simp add: refTo_def del: schemaToType.simps)
qed

section \<open>Method names\<close>

lemma wordChar_ascii: "wordChar c \<Longrightarrow> isAscii c"
  unfolding wordChar_def isAlnum_def isLower_def isUpper_def isDigit_def isAscii_def
  by (auto simp: word_le_nat_alt word_less_nat_alt)

lemma lowerAscii_identChar: "wordChar c \<Longrightarrow> identChar (lowerAscii c)"
  unfolding wordChar_def identChar_def isAlnum_def isLower_def isUpper_def isDigit_def lowerAscii_def
  by (auto simp: word_le_nat_alt word_less_nat_alt unat_word_ariths)

lemma lowerAscii_not_digit: "\<not> isDigit c \<Longrightarrow> \<not> isDigit (lowerAscii c)"
  unfolding isUpper_def isDigit_def lowerAscii_def
  by (auto simp: word_le_nat_alt word_less_nat_alt unat_word_ariths)

lemma replaceNonAlnum_wordChars: "list_all wordChar (replaceNonAlnum s)"
  by (induction s) (simp_all add: replaceNonAlnum_def wordChar_def)

lemma escapeLeadingDigit_wordChars:
  "list_all wordChar s \<Longrightarrow> list_all wordChar (escapeLeadingDigit s)"
  by (cases s) (simp_all add: escapeLeadingDigit_def wordChar_def)

lemma escapeLeadingDigit_noLeadingDigit: "noLeadingDigit (escapeLeadingDigit s)"
  by (cases s) (simp_all add: escapeLeadingDigit_def noLeadingDigit_def isDigit_def)

lemma splitCamel_wordChars: "list_all wordChar s \<Longrightarrow> list_all wordChar (splitCamel s)"
  by (induction s rule: splitCamel.induct) (simp_all add: wordChar_def)

lemma splitCamel_noLeadingDigit: "noLeadingDigit s \<Longrightarrow> noLeadingDigit (splitCamel s)"
  by (induction s rule: splitCamel.induct) (simp_all add: noLeadingDigit_def)

lemma length_splitCamel: "length s \<le> length (splitCamel s)"
  by (induction s rule: splitCamel.induct) auto

lemma toLowerCase_wordChars:
  "list_all wordChar s \<Longrightarrow> toLowerCase rt s = map lowerAscii s"
  by (simp add: toLowerCase_def list_all_iff wordChar_ascii)

lemma sanitize_shape:
  "list_all identChar (sanitizeMethodName rt name) \<and> noLeadingDigit (sanitizeMethodName rt name)"
proof -
  let ?s = "splitCamel (escapeLeadingDigit (replaceNonAlnum name))"
  have w: "list_all wordChar ?s"
    by (intro splitCamel_wordChars escapeLeadingDigit_wordChars replaceNonAlnum_wordChars)
  have n: "noLeadingDigit ?s"
    by (intro splitCamel_noLeadingDigit escapeLeadingDigit_noLeadingDigit)
  have eq: "sanitizeMethodName rt name = map lowerAscii ?s"
    unfolding sanitizeMethodName_def using w by (rule toLowerCase_wordChars)
  have "list_all identChar (map lowerAscii ?s)"
    using w by (simp add: list_all_iff lowerAscii_identChar)
  moreover have "noLeadingDigit (map lowerAscii ?s)"
    using n by (cases ?s) (simp_all add: noLeadingDigit_def lowerAscii_not_digit)
  ultimately show ?thesis by (simp only: eq)
qed

lemma length_sanitize: "length name \<le> length (sanitizeMethodName rt name)"
proof -
  let ?s = "splitCamel (escapeLeadingDigit (replaceNonAlnum name))"
  have w: "list_all wordChar ?s"
    by (intro splitCamel_wordChars escapeLeadingDigit_wordChars replaceNonAlnum_wordChars)
  have "length name \<le> length (escapeLeadingDigit (replaceNonAlnum name))"
    by (cases name) (simp_all add: escapeLeadingDigit_def replaceNonAlnum_def)
  also have "\<dots> \<le> length ?s" by (rule length_splitCamel)
  finally show ?thesis
    unfolding sanitizeMethodName_def toLowerCase_wordChars [OF w] by simp
qed


text \<open>
  C10. For every string, of any code units, the sanitized name consists of lower-case
  ASCII letters, digits and underscores only, does not start with a digit, and is at
  least as long as the input (so it is not empty when the input is not). The method of
  the example generator is the same function.
\<close>

theorem sanitizeMethodName_identifier:
  "list_all identChar (sanitizeMethodName rt name)
   \<and> noLeadingDigit (sanitizeMethodName rt name)
   \<and> length name \<le> length (sanitizeMethodName rt name)
   \<and> sanitizeMethodName_ExampleGenerator rt name = sanitizeMethodName rt name"
  using sanitize_shape [of rt name] length_sanitize [of name rt]
  by (simp add: sanitizeMethodName_ExampleGenerator_def sanitizeMethodName_def)

theorem sanitizeMethodName_identifier_witness:
  "sanitizeMethodName exampleRuntime (js ''getUserById'') = js ''get_user_by_id''
   \<and> sanitizeMethodName exampleRuntime (js ''2fa-Login'') = js ''_2fa_login''
   \<and> sanitizeMethodName exampleRuntime [0xE9, 0xD83D, 0xDE00, 0x41] = js ''___a''
   \<and> sanitizeMethodName exampleRuntime [] = []
   \<and> list_all identChar (sanitizeMethodName exampleRuntime [0xE9, 0xD83D, 0xDE00, 0x41])
   \<and> noLeadingDigit (sanitizeMethodName exampleRuntime (js ''2fa-Login''))
   \<and> sanitizeMethodName_ExampleGenerator exampleRuntime (js ''2fa-Login'') = js ''_2fa_login''"
proof -
  have 1: "sanitizeMethodName exampleRuntime (js ''getUserById'') = js ''get_user_by_id''"
    and 2: "sanitizeMethodName exampleRuntime (js ''2fa-Login'') = js ''_2fa_login''"
    and 3: "sanitizeMethodName exampleRuntime [0xE9, 0xD83D, 0xDE00, 0x41] = js ''___a''"
    and 4: "sanitizeMethodName exampleRuntime [] = []"
    by code_simp+
  from sanitizeMethodName_identifier [of exampleRuntime "[0xE9, 0xD83D, 0xDE00, 0x41]"]
    sanitizeMethodName_identifier [of exampleRuntime "js ''2fa-Login''"] 1 2 3 4
  show ?thesis by simp
qed

section \<open>The endpoint builder\<close>

lemma fold_methods:
  "fold (\<lambda>m endpoints.
          (case pathItemOperation item m of
             None \<Rightarrow> endpoints
           | Some operation \<Rightarrow> endpoints @ [buildEndpoint rt m path item operation])) ms acc
   = acc @ concat (map (\<lambda>m. case pathItemOperation item m of
                         None \<Rightarrow> []
                       | Some operation \<Rightarrow> [buildEndpoint rt m path item operation]) ms)"
  by (induction ms arbitrary: acc) (auto split: option.splits)

lemma fold_paths:
  "fold (\<lambda>(path, item) endpoints.
             fold (\<lambda>m endpoints.
                     (case pathItemOperation item m of
                        None \<Rightarrow> endpoints
                      | Some operation \<Rightarrow> endpoints @ [buildEndpoint rt m path item operation]))
                  methods endpoints) entries acc
   = acc @ concat (map (\<lambda>(path, item). endpointsOfPath rt path item) entries)"
  by (induction entries arbitrary: acc) (auto simp: fold_methods endpointsOfPath_def)

lemma extractEndpoints_eq:
  "extractEndpoints rt p
   = concat (map (\<lambda>(path, item). endpointsOfPath rt path item) (Object_entries (s_paths (spec p))))"
  by (simp add: extractEndpoints_def fold_paths)




lemma all_methods: "m \<in> set methods"
  by (cases m) (simp_all add: methods_def)

lemma set_endpointsOfPath:
  "set (endpointsOfPath rt path item)
   = {buildEndpoint rt m path item operation | m operation.
        pathItemOperation item m = Some operation}"
proof (intro equalityI subsetI)
  fix e assume "e \<in> set (endpointsOfPath rt path item)"
  then obtain m where
    "e \<in> set (case pathItemOperation item m of
                 None \<Rightarrow> []
               | Some operation \<Rightarrow> [buildEndpoint rt m path item operation])"
    unfolding endpointsOfPath_def by auto
  then show "e \<in> {buildEndpoint rt m path item operation | m operation.
        pathItemOperation item m = Some operation}"
    by (cases "pathItemOperation item m") auto
next
  fix e assume "e \<in> {buildEndpoint rt m path item operation | m operation.
        pathItemOperation item m = Some operation}"
  then obtain m operation where
    "pathItemOperation item m = Some operation" "e = buildEndpoint rt m path item operation"
    by blast
  then have "e \<in> set (case pathItemOperation item m of
                 None \<Rightarrow> []
               | Some operation \<Rightarrow> [buildEndpoint rt m path item operation])"
    by simp
  then show "e \<in> set (endpointsOfPath rt path item)"
    unfolding endpointsOfPath_def using all_methods [of m] by (simp only: set_concat set_map) blast
qed

lemma set_extractEndpoints:
  "set (extractEndpoints rt p)
   = {buildEndpoint rt m path item operation | m path item operation.
        (path, item) \<in> set (s_paths (spec p)) \<and> pathItemOperation item m = Some operation}"
  unfolding extractEndpoints_eq
  by (simp only: set_concat set_map set_Object_entries) (force simp: set_endpointsOfPath)

lemma join_empty_separator: "join [] xs = concat xs"
  by (induction "[] :: jsstring" xs rule: join.induct) simp_all

lemma capitalize_empty: "capitalize rt [] = []"
  by (simp add: capitalize_def toUpperCase_def charAt0_def slice1_def)

lemma concat_map_filter_nonempty:
  "f [] = [] \<Longrightarrow> concat (map f (filter (\<lambda>x. x \<noteq> []) xs)) = concat (map f xs)"
  by (induction xs) simp_all

lemma toLowerCase_methodName: "toLowerCase rt (methodName m) = methodName m"
  by (cases m)
    (simp_all add: methodName_def toLowerCase_def js_def isAscii_def lowerAscii_def isUpper_def)

lemma methodName_nonempty: "methodName m \<noteq> []"
  by (cases m) (simp_all add: methodName_def js_def)

lemma generateOperationId_spec:
  "generateOperationId rt (methodName m) path = specOperationId rt m path"
proof -
  have "concat (map (capitalize rt) (map removeBraces (filter (\<lambda>part. part \<noteq> []) (split 0x2F path))))
        = concat (map (\<lambda>segment. capitalize rt (removeBraces segment)) (split 0x2F path))"
    using concat_map_filter_nonempty [of "\<lambda>segment. capitalize rt (removeBraces segment)"]
    by (simp add: removeBraces_def capitalize_empty comp_def)
  then show ?thesis
    by (simp add: generateOperationId_def specOperationId_def join_empty_separator
        toLowerCase_methodName)
qed

lemma buildEndpoint_operationId_nonempty:
  "e_operationId (buildEndpoint rt m path item operation) \<noteq> []"
  by (simp add: buildEndpoint_def generateOperationId_spec specOperationId_def
      methodName_nonempty split: option.splits)

lemma buildEndpoint_operationId_omitted:
  "op_operationId operation = None \<Longrightarrow>
   e_operationId (buildEndpoint rt m path item operation) = specOperationId rt m path"
  by (simp add: buildEndpoint_def generateOperationId_spec)

lemma specOperationId_example: "specOperationId rt GET (js ''/users/{id}/posts'') = js ''getUsersIdPosts''"
  by (simp add: specOperationId_def methodName_def js_def toUpperCase_def capitalize_def
      charAt0_def slice1_def removeBraces_def isAscii_def upperAscii_def isLower_def)

text \<open>
  C6. Every endpoint the builder returns has a non-empty \<open>operationId\<close>. For a path
  entry and a method whose operation has no \<open>operationId\<close>, the endpoint built has the
  identifier of the specification: the method in lower case followed by the parts of
  the path between slashes, braces removed and first letter capitalized, in path order;
  \<^verbatim>\<open>GET /users/{id}/posts\<close> gives \<^verbatim>\<open>getUsersIdPosts\<close>.
\<close>

theorem operationId_derived_and_nonempty:
  "(\<forall>e \<in> set (extractEndpoints rt p). e_operationId e \<noteq> [])
   \<and> (\<forall>(path, item) \<in> set (s_paths (spec p)). \<forall>m operation.
         pathItemOperation item m = Some operation \<and> op_operationId operation = None \<longrightarrow>
           buildEndpoint rt m path item operation \<in> set (extractEndpoints rt p)
           \<and> e_operationId (buildEndpoint rt m path item operation) = specOperationId rt m path)
   \<and> list_all isLower (methodName m)
   \<and> specOperationId rt GET (js ''/users/{id}/posts'') = js ''getUsersIdPosts''"
proof (intro conjI)
  show "list_all isLower (methodName m)"
    by (cases m) (simp_all add: methodName_def js_def isLower_def)
  show "\<forall>e \<in> set (extractEndpoints rt p). e_operationId e \<noteq> []"
    unfolding set_extractEndpoints using buildEndpoint_operationId_nonempty by blast
  show "\<forall>(path, item) \<in> set (s_paths (spec p)). \<forall>m operation.
         pathItemOperation item m = Some operation \<and> op_operationId operation = None \<longrightarrow>
           buildEndpoint rt m path item operation \<in> set (extractEndpoints rt p)
           \<and> e_operationId (buildEndpoint rt m path item operation) = specOperationId rt m path"
    unfolding set_extractEndpoints using buildEndpoint_operationId_omitted by blast
  show "specOperationId rt GET (js ''/users/{id}/posts'') = js ''getUsersIdPosts''"
    by (rule specOperationId_example)
qed

lemma extractEndpoints_example:
  "extractEndpoints exampleRuntime exampleParser
   = [buildEndpoint exampleRuntime GET (js ''/users/{id}/posts'') postsItem listPosts,
      buildEndpoint exampleRuntime POST (js ''/users/{id}/posts'') postsItem createPost,
      buildEndpoint exampleRuntime GET (js ''/pets'') petItem getPet,
      buildEndpoint exampleRuntime DELETE (js ''/pets'') petItem deletePet]"
  by (simp add: extractEndpoints_def example_paths examplePaths_def Object_entries_def
      isArrayIndex_def js_def isDigit_def methods_def pathItemOperation_def postsItem_def
      petItem_def)


lemma operationIds_example:
  "map e_operationId (extractEndpoints exampleRuntime exampleParser)
   = [js ''getUsersIdPosts'', js ''createPost'', js ''getPet'', js ''deletePets'']"
  by code_simp

theorem operationId_derived_and_nonempty_witness:
  "map e_operationId (extractEndpoints exampleRuntime exampleParser)
     = [js ''getUsersIdPosts'', js ''createPost'', js ''getPet'', js ''deletePets'']
   \<and> (js ''/users/{id}/posts'', postsItem) \<in> set (s_paths (spec exampleParser))
   \<and> pathItemOperation postsItem GET = Some listPosts
   \<and> op_operationId listPosts = None
   \<and> buildEndpoint exampleRuntime GET (js ''/users/{id}/posts'') postsItem listPosts
       \<in> set (extractEndpoints exampleRuntime exampleParser)
   \<and> e_operationId (buildEndpoint exampleRuntime GET (js ''/users/{id}/posts'') postsItem listPosts)
       = js ''getUsersIdPosts''
   \<and> list_all (\<lambda>e. e_operationId e \<noteq> []) (extractEndpoints exampleRuntime exampleParser)"
proof -
  have a: "(js ''/users/{id}/posts'', postsItem) \<in> set (s_paths (spec exampleParser))"
    by (simp add: example_paths examplePaths_def)
  have b: "pathItemOperation postsItem GET = Some listPosts"
    by (simp add: pathItemOperation_def postsItem_def)
  have c: "op_operationId listPosts = None"
    by (simp add: listPosts_def)
  note inst = operationId_derived_and_nonempty [of exampleRuntime exampleParser]
  from inst have "list_all (\<lambda>e. e_operationId e \<noteq> []) (extractEndpoints exampleRuntime exampleParser)"
    by (simp add: list_all_iff)
  moreover from inst a b c
  have "buildEndpoint exampleRuntime GET (js ''/users/{id}/posts'') postsItem listPosts
          \<in> set (extractEndpoints exampleRuntime exampleParser)
        \<and> e_operationId (buildEndpoint exampleRuntime GET (js ''/users/{id}/posts'') postsItem listPosts)
          = js ''getUsersIdPosts''"
    by fastforce
  ultimately show ?thesis
    using a b c operationIds_example by simp
qed

text \<open>
  C7. For every path entry and every method present on it, the endpoint built is in
  the result, and its parameters are the path-level parameters in their order followed
  by the operation-level parameters in their order: nothing is removed and nothing is
  replaced, so a name declared at both levels occurs twice. Every endpoint of the result
  is built this way.
\<close>

theorem parameters_path_level_then_operation_level:
  "(\<forall>(path, item) \<in> set (s_paths (spec p)). \<forall>m operation.
      pathItemOperation item m = Some operation \<longrightarrow>
        buildEndpoint rt m path item operation \<in> set (extractEndpoints rt p)
        \<and> e_parameters (buildEndpoint rt m path item operation)
            = (case pi_parameters item of None \<Rightarrow> [] | Some ps \<Rightarrow> ps)
              @ (case op_parameters operation of None \<Rightarrow> [] | Some ps \<Rightarrow> ps))
   \<and> (\<forall>e \<in> set (extractEndpoints rt p). \<exists>item operation.
         (e_path e, item) \<in> set (s_paths (spec p))
         \<and> pathItemOperation item (e_method e) = Some operation
         \<and> e_parameters e
             = (case pi_parameters item of None \<Rightarrow> [] | Some ps \<Rightarrow> ps)
               @ (case op_parameters operation of None \<Rightarrow> [] | Some ps \<Rightarrow> ps))"
proof (intro conjI)
  have params: "e_parameters (buildEndpoint rt m path item operation)
            = (case pi_parameters item of None \<Rightarrow> [] | Some ps \<Rightarrow> ps)
              @ (case op_parameters operation of None \<Rightarrow> [] | Some ps \<Rightarrow> ps)"
    for m path item operation
    by (simp add: buildEndpoint_def orEmpty_def)
  have key: "e_path (buildEndpoint rt m path item operation) = path"
    "e_method (buildEndpoint rt m path item operation) = m" for m path item operation
    by (simp_all add: buildEndpoint_def)
  show "\<forall>(path, item) \<in> set (s_paths (spec p)). \<forall>m operation.
      pathItemOperation item m = Some operation \<longrightarrow>
        buildEndpoint rt m path item operation \<in> set (extractEndpoints rt p)
        \<and> e_parameters (buildEndpoint rt m path item operation)
            = (case pi_parameters item of None \<Rightarrow> [] | Some ps \<Rightarrow> ps)
              @ (case op_parameters operation of None \<Rightarrow> [] | Some ps \<Rightarrow> ps)"
    unfolding set_extractEndpoints using params by blast
  show "\<forall>e \<in> set (extractEndpoints rt p). \<exists>item operation.
         (e_path e, item) \<in> set (s_paths (spec p))
         \<and> pathItemOperation item (e_method e) = Some operation
         \<and> e_parameters e
             = (case pi_parameters item of None \<Rightarrow> [] | Some ps \<Rightarrow> ps)
               @ (case op_parameters operation of None \<Rightarrow> [] | Some ps \<Rightarrow> ps)"
  proof
    fix e assume "e \<in> set (extractEndpoints rt p)"
    then obtain m path item operation where
      src: "(path, item) \<in> set (s_paths (spec p))" "pathItemOperation item m = Some operation"
      and e: "e = buildEndpoint rt m path item operation"
      unfolding set_extractEndpoints by blast
    show "\<exists>item operation.
         (e_path e, item) \<in> set (s_paths (spec p))
         \<and> pathItemOperation item (e_method e) = Some operation
         \<and> e_parameters e
             = (case pi_parameters item of None \<Rightarrow> [] | Some ps \<Rightarrow> ps)
               @ (case op_parameters operation of None \<Rightarrow> [] | Some ps \<Rightarrow> ps)"
      unfolding e key params using src by blast
  qed
qed

theorem parameters_path_level_then_operation_level_witness:
  "(js ''/users/{id}/posts'', postsItem) \<in> set (s_paths (spec exampleParser))
   \<and> pathItemOperation postsItem GET = Some listPosts
   \<and> buildEndpoint exampleRuntime GET (js ''/users/{id}/posts'') postsItem listPosts
       \<in> set (extractEndpoints exampleRuntime exampleParser)
   \<and> e_parameters (buildEndpoint exampleRuntime GET (js ''/users/{id}/posts'') postsItem listPosts)
       = [idParam Path, idParam Query]
   \<and> map p_name (e_parameters (hd (extractEndpoints exampleRuntime exampleParser)))
       = [js ''id'', js ''id'']"
proof -
  have a: "(js ''/users/{id}/posts'', postsItem) \<in> set (s_paths (spec exampleParser))"
    by (simp add: example_paths examplePaths_def)
  have b: "pathItemOperation postsItem GET = Some listPosts"
    by (simp add: pathItemOperation_def postsItem_def)
  from parameters_path_level_then_operation_level [of exampleParser exampleRuntime] a b
  have "buildEndpoint exampleRuntime GET (js ''/users/{id}/posts'') postsItem listPosts
          \<in> set (extractEndpoints exampleRuntime exampleParser)
        \<and> e_parameters (buildEndpoint exampleRuntime GET (js ''/users/{id}/posts'') postsItem listPosts)
          = (case pi_parameters postsItem of None \<Rightarrow> [] | Some ps \<Rightarrow> ps)
            @ (case op_parameters listPosts of None \<Rightarrow> [] | Some ps \<Rightarrow> ps)"
    by fastforce
  then show ?thesis
    using a b by (simp add: extractEndpoints_example postsItem_def listPosts_def idParam_def)
qed

section \<open>The order of the endpoints\<close>

lemma buildEndpoint_key:
  "e_path (buildEndpoint rt m path item operation) = path"
  "e_method (buildEndpoint rt m path item operation) = m"
  by (simp_all add: buildEndpoint_def)

lemma endpointsOfPath_presentOperations:
  "endpointsOfPath rt path item
   = map (\<lambda>(m, operation). buildEndpoint rt m path item operation) (presentOperations item)"
  by (simp add: endpointsOfPath_def methods_def pathItemOperation_def presentOperations_def
      split: option.splits)

lemma endpointKeys_endpointsOfPath:
  "endpointKeys (endpointsOfPath rt path item) = map (Pair path) (presentMethods item)"
  by (simp add: endpointsOfPath_presentOperations endpointKeys_def presentMethods_def
      buildEndpoint_key split_def comp_def)

lemma endpointKeys_entries:
  "endpointKeys (concat (map (\<lambda>(path, item). endpointsOfPath rt path item) entries))
   = declaredOrder entries"
proof (induction entries)
  case Nil
  show ?case by (simp add: declaredOrder_def endpointKeys_def)
next
  case (Cons entry entries)
  obtain path item where entry: "entry = (path, item)" by (cases entry)
  have "endpointKeys (concat (map (\<lambda>(path, item). endpointsOfPath rt path item) (entry # entries)))
        = endpointKeys (endpointsOfPath rt path item)
          @ endpointKeys (concat (map (\<lambda>(path, item). endpointsOfPath rt path item) entries))"
    by (simp add: entry endpointKeys_def)
  also have "\<dots> = map (Pair path) (presentMethods item) @ declaredOrder entries"
    by (simp only: endpointKeys_endpointsOfPath Cons.IH)
  also have "\<dots> = declaredOrder (entry # entries)"
    by (simp add: entry declaredOrder_def)
  finally show ?case .
qed

lemma Object_entries_numericPaths:
  "Object_entries numericPaths = [(js ''7'', postsItem), (js ''/pets'', petItem)]"
  by (simp add: Object_entries_def numericPaths_def isArrayIndex_def js_def isDigit_def
      decimalValue_def)

lemma presentMethods_examples:
  "presentMethods postsItem = [GET, POST]" "presentMethods petItem = [GET, DELETE]"
  "presentMethods thingsItem = [GET, POST, PUT, PATCH, DELETE]"
  "presentMethods editsItem = [PUT, PATCH]"
  by (simp_all add: presentMethods_def presentOperations_def postsItem_def petItem_def
      thingsItem_def editsItem_def)

lemma enumerationOrder_numericPaths:
  "enumerationOrder numericPaths
   = [(js ''7'', GET), (js ''7'', POST), (js ''/pets'', GET), (js ''/pets'', DELETE)]"
  by (simp add: enumerationOrder_def Object_entries_numericPaths declaredOrder_def
      presentMethods_examples)

lemma declaredOrder_numericPaths:
  "declaredOrder numericPaths
   = [(js ''/pets'', GET), (js ''/pets'', DELETE), (js ''7'', GET), (js ''7'', POST)]"
  by (simp add: declaredOrder_def numericPaths_def presentMethods_examples)

lemma declaredOrder_examplePaths:
  "declaredOrder examplePaths
   = [(js ''/users/{id}/posts'', GET), (js ''/users/{id}/posts'', POST),
      (js ''/pets'', GET), (js ''/pets'', DELETE)]"
  by (simp add: declaredOrder_def examplePaths_def presentMethods_examples)

lemma declaredOrder_fullPaths:
  "declaredOrder fullPaths
   = [(js ''/things'', GET), (js ''/things'', POST), (js ''/things'', PUT),
      (js ''/things'', PATCH), (js ''/things'', DELETE),
      (js ''/edits'', PUT), (js ''/edits'', PATCH)]"
  by (simp add: declaredOrder_def fullPaths_def presentMethods_examples)

lemma Object_entries_fullPaths: "Object_entries fullPaths = fullPaths"
  by (rule Object_entries_no_index) (simp add: fullPaths_def slash_not_index js_def)

lemma operationIds_fullPaths:
  "map e_operationId
     (concat (map (\<lambda>(path, item).
                map (\<lambda>(m, operation). buildEndpoint exampleRuntime m path item operation)
                  (presentOperations item)) fullPaths))
   = [js ''readThing'', js ''createThing'', js ''replaceThing'', js ''amendThing'',
      js ''removeThing'', js ''replaceEdit'', js ''amendEdit'']"
  by (simp add: fullPaths_def presentOperations_def thingsItem_def editsItem_def
      namedOperation_def buildEndpoint_def js_def)

text \<open>
  C8. The claim is that the endpoints come in the order in which the document declares
  its paths. The loop runs over \<^verbatim>\<open>Object.entries(this.spec.paths)\<close>, which puts the
  keys that are array indices first, in ascending numeric order; the endpoints follow
  that order. Within one path the endpoints are those of the operations declared under
  \<^verbatim>\<open>get\<close>, \<^verbatim>\<open>post\<close>, \<^verbatim>\<open>put\<close>, \<^verbatim>\<open>patch\<close> and \<^verbatim>\<open>delete\<close>, in this order whatever the
  order of the keys of the path entry, each built from the operation declared under
  its own method; a method that is absent gives no endpoint. The order of the paths is
  the declared one when no path key is an array index, in particular when every path
  starts with a slash.
\<close>

theorem extractEndpoints_order:
  "extractEndpoints rt p
     = concat (map (\<lambda>(path, item).
                 (case pi_get item of None \<Rightarrow> []
                  | Some operation \<Rightarrow> [buildEndpoint rt GET path item operation])
                 @ (case pi_post item of None \<Rightarrow> []
                    | Some operation \<Rightarrow> [buildEndpoint rt POST path item operation])
                 @ (case pi_put item of None \<Rightarrow> []
                    | Some operation \<Rightarrow> [buildEndpoint rt PUT path item operation])
                 @ (case pi_patch item of None \<Rightarrow> []
                    | Some operation \<Rightarrow> [buildEndpoint rt PATCH path item operation])
                 @ (case pi_delete item of None \<Rightarrow> []
                    | Some operation \<Rightarrow> [buildEndpoint rt DELETE path item operation]))
               (Object_entries (s_paths (spec p))))
   \<and> extractEndpoints rt p
     = concat (map (\<lambda>(path, item).
                 map (\<lambda>(m, operation). buildEndpoint rt m path item operation)
                   (presentOperations item))
               (Object_entries (s_paths (spec p))))
   \<and> endpointKeys (extractEndpoints rt p) = enumerationOrder (s_paths (spec p))
   \<and> map fst (Object_entries (s_paths (spec p)))
       = sort_key decimalValue (filter isArrayIndex (map fst (s_paths (spec p))))
         @ filter (\<lambda>k. \<not> isArrayIndex k) (map fst (s_paths (spec p)))
   \<and> (list_all (\<lambda>k. \<not> isArrayIndex k) (map fst (s_paths (spec p))) \<longrightarrow>
        endpointKeys (extractEndpoints rt p) = declaredOrder (s_paths (spec p)))
   \<and> (list_all (\<lambda>k. take 1 k = js ''/'') (map fst (s_paths (spec p))) \<longrightarrow>
        endpointKeys (extractEndpoints rt p) = declaredOrder (s_paths (spec p)))"
proof -
  have lit: "extractEndpoints rt p
     = concat (map (\<lambda>(path, item).
                 (case pi_get item of None \<Rightarrow> []
                  | Some operation \<Rightarrow> [buildEndpoint rt GET path item operation])
                 @ (case pi_post item of None \<Rightarrow> []
                    | Some operation \<Rightarrow> [buildEndpoint rt POST path item operation])
                 @ (case pi_put item of None \<Rightarrow> []
                    | Some operation \<Rightarrow> [buildEndpoint rt PUT path item operation])
                 @ (case pi_patch item of None \<Rightarrow> []
                    | Some operation \<Rightarrow> [buildEndpoint rt PATCH path item operation])
                 @ (case pi_delete item of None \<Rightarrow> []
                    | Some operation \<Rightarrow> [buildEndpoint rt DELETE path item operation]))
               (Object_entries (s_paths (spec p))))"
    by (simp add: extractEndpoints_eq endpointsOfPath_def methods_def pathItemOperation_def)
  have ops: "extractEndpoints rt p
     = concat (map (\<lambda>(path, item).
                 map (\<lambda>(m, operation). buildEndpoint rt m path item operation)
                   (presentOperations item))
               (Object_entries (s_paths (spec p))))"
    by (simp only: extractEndpoints_eq endpointsOfPath_presentOperations)
  have enum: "endpointKeys (extractEndpoints rt p) = enumerationOrder (s_paths (spec p))"
    by (simp only: extractEndpoints_eq endpointKeys_entries enumerationOrder_def)
  have decl: "endpointKeys (extractEndpoints rt p) = declaredOrder (s_paths (spec p))"
    if "list_all (\<lambda>k. \<not> isArrayIndex k) (map fst (s_paths (spec p)))"
    using that by (simp add: enum enumerationOrder_def Object_entries_no_index)
  have "list_all (\<lambda>k. \<not> isArrayIndex k) (map fst (s_paths (spec p)))"
    if "list_all (\<lambda>k. take 1 k = js ''/'') (map fst (s_paths (spec p)))"
    using that by (simp add: list_all_iff slash_not_index)
  with lit ops enum decl Object_keys_order [of "s_paths (spec p)"] show ?thesis
    unfolding Object_keys_def by blast
qed

theorem extractEndpoints_order_witness:
  "list_all (\<lambda>k. take 1 k = js ''/'') (map fst (s_paths (spec exampleParser)))
   \<and> endpointKeys (extractEndpoints exampleRuntime exampleParser)
       = [(js ''/users/{id}/posts'', GET), (js ''/users/{id}/posts'', POST),
          (js ''/pets'', GET), (js ''/pets'', DELETE)]
   \<and> declaredOrder (s_paths (spec exampleParser))
       = [(js ''/users/{id}/posts'', GET), (js ''/users/{id}/posts'', POST),
          (js ''/pets'', GET), (js ''/pets'', DELETE)]
   \<and> endpointKeys (extractEndpoints exampleRuntime numericParser)
       = [(js ''7'', GET), (js ''7'', POST), (js ''/pets'', GET), (js ''/pets'', DELETE)]
   \<and> list_all (\<lambda>k. take 1 k = js ''/'') (map fst (s_paths (spec fullParser)))
   \<and> endpointKeys (extractEndpoints exampleRuntime fullParser)
       = [(js ''/things'', GET), (js ''/things'', POST), (js ''/things'', PUT),
          (js ''/things'', PATCH), (js ''/things'', DELETE),
          (js ''/edits'', PUT), (js ''/edits'', PATCH)]
   \<and> map e_operationId (extractEndpoints exampleRuntime fullParser)
       = [js ''readThing'', js ''createThing'', js ''replaceThing'', js ''amendThing'',
          js ''removeThing'', js ''replaceEdit'', js ''amendEdit'']"
proof -
  have h: "list_all (\<lambda>k. take 1 k = js ''/'') (map fst (s_paths (spec exampleParser)))"
    by (simp add: example_paths examplePaths_def js_def)
  have h': "list_all (\<lambda>k. take 1 k = js ''/'') (map fst (s_paths (spec fullParser)))"
    by (simp add: full_paths fullPaths_def js_def)
  have p: "s_paths (spec exampleParser) = examplePaths"
    "s_paths (spec numericParser) = numericPaths"
    by (rule example_paths)+
  from extractEndpoints_order [of exampleRuntime exampleParser] h
  have 1: "endpointKeys (extractEndpoints exampleRuntime exampleParser)
           = declaredOrder (s_paths (spec exampleParser))"
    by blast
  from extractEndpoints_order [of exampleRuntime numericParser]
  have 2: "endpointKeys (extractEndpoints exampleRuntime numericParser)
           = enumerationOrder (s_paths (spec numericParser))"
    by blast
  from extractEndpoints_order [of exampleRuntime fullParser] h'
  have 3: "endpointKeys (extractEndpoints exampleRuntime fullParser)
           = declaredOrder (s_paths (spec fullParser))"
    by blast
  from extractEndpoints_order [of exampleRuntime fullParser]
  have "extractEndpoints exampleRuntime fullParser
        = concat (map (\<lambda>(path, item).
                 map (\<lambda>(m, operation). buildEndpoint exampleRuntime m path item operation)
                   (presentOperations item))
               (Object_entries (s_paths (spec fullParser))))"
    by blast
  then have 4: "map e_operationId (extractEndpoints exampleRuntime fullParser)
       = [js ''readThing'', js ''createThing'', js ''replaceThing'', js ''amendThing'',
          js ''removeThing'', js ''replaceEdit'', js ''amendEdit'']"
    by (simp only: full_paths Object_entries_fullPaths operationIds_fullPaths)
  show ?thesis
    using h h' 4
    by (simp add: 1 2 3 p full_paths declaredOrder_examplePaths enumerationOrder_numericPaths
        declaredOrder_fullPaths)
qed

lemma endpointKeys_numericParser:
  "endpointKeys (extractEndpoints exampleRuntime numericParser)
   = [(js ''7'', GET), (js ''7'', POST), (js ''/pets'', GET), (js ''/pets'', DELETE)]"
  by (simp add: extractEndpoints_eq endpointKeys_entries example_paths
      enumerationOrder_numericPaths [unfolded enumerationOrder_def])

text \<open>
  A document that declares \<^verbatim>\<open>/pets\<close> before \<^verbatim>\<open>7\<close>: the endpoints of \<^verbatim>\<open>7\<close> come
  first.
\<close>

theorem extractEndpoints_declared_order_counterexample:
  "endpointKeys (extractEndpoints exampleRuntime numericParser)
     = [(js ''7'', GET), (js ''7'', POST), (js ''/pets'', GET), (js ''/pets'', DELETE)]
   \<and> declaredOrder (s_paths (spec numericParser))
     = [(js ''/pets'', GET), (js ''/pets'', DELETE), (js ''7'', GET), (js ''7'', POST)]
   \<and> endpointKeys (extractEndpoints exampleRuntime numericParser)
     \<noteq> declaredOrder (s_paths (spec numericParser))"
  by (simp add: endpointKeys_numericParser)
    (simp add: example_paths declaredOrder_numericPaths js_def)

section \<open>Error statuses\<close>

lemma parseInt_error_statuses:
  "map parseInt (filter isErrorStatus keys) = map Some (errorStatusesOf keys)"
  by (induction keys) (auto simp: isErrorStatus_def errorStatusesOf_def split: option.splits)

lemma extractErrorTypes_errorUnion:
  "extractErrorTypes rt responses = errorUnion rt (errorStatusesOf (Object_keys responses))"
proof (cases "errorStatusesOf (Object_keys responses)")
  case Nil
  then show ?thesis
    by (simp add: extractErrorTypes_def parseInt_error_statuses errorUnion_def)
next
  case (Cons n ns)
  then show ?thesis
    by (cases ns)
      (simp_all add: extractErrorTypes_def parseInt_error_statuses errorUnion_def comp_def)
qed

lemma methodReturnType_omitted:
  "errorStatusesOf (Object_keys responses) = [] \<Longrightarrow>
   methodReturnType rt responses = js ''Promise<ApiResult<TResponse>>''"
  by (simp add: methodReturnType_def extractErrorTypes_errorUnion errorUnion_def js_def)

lemma methodReturnType_present:
  "extractErrorTypes rt responses = Some e \<Longrightarrow> e \<noteq> [] \<Longrightarrow>
   methodReturnType rt responses = js ''Promise<ApiResult<TResponse, '' @ e @ js ''>>''"
  by (simp add: methodReturnType_def js_def)

text \<open>
  C4. The error type is computed from exactly the status keys that parse to a number of
  at least 400: none gives no error type, and the return type is written without a
  second parameter; one gives its numeral; several give the numerals joined by a bar.
  The claim has them in the order the responses are declared. The code takes them from
  \<^verbatim>\<open>Object.keys(responses)\<close>, which puts the keys that are array indices (as
  \<^verbatim>\<open>404\<close> and \<^verbatim>\<open>500\<close> are) in ascending numeric order, ahead of every other key;
  the union follows that order, which is the declared one when the numeric keys are
  declared in ascending order ahead of the others.
\<close>

theorem extractErrorTypes_enumeration_order:
  "extractErrorTypes rt responses = errorUnion rt (errorStatusesOf (Object_keys responses))
   \<and> Object_keys responses
       = sort_key decimalValue (filter isArrayIndex (map fst responses))
         @ filter (\<lambda>k. \<not> isArrayIndex k) (map fst responses)
   \<and> (sorted (map decimalValue (filter isArrayIndex (map fst responses)))
        \<and> map fst responses
            = filter isArrayIndex (map fst responses)
              @ filter (\<lambda>k. \<not> isArrayIndex k) (map fst responses)
       \<longrightarrow> extractErrorTypes rt responses = declaredOrderErrorTypes rt responses)
   \<and> (errorStatusesOf (Object_keys responses) = [] \<longrightarrow>
        extractErrorTypes rt responses = None
        \<and> methodReturnType rt responses = js ''Promise<ApiResult<TResponse>>'')
   \<and> (\<forall>e. extractErrorTypes rt responses = Some e \<and> e \<noteq> [] \<longrightarrow>
        methodReturnType rt responses = js ''Promise<ApiResult<TResponse, '' @ e @ js ''>>'')"
proof (intro conjI impI allI)
  show "extractErrorTypes rt responses = errorUnion rt (errorStatusesOf (Object_keys responses))"
    by (rule extractErrorTypes_errorUnion)
  show "Object_keys responses
       = sort_key decimalValue (filter isArrayIndex (map fst responses))
         @ filter (\<lambda>k. \<not> isArrayIndex k) (map fst responses)"
    by (rule Object_keys_order)
  show "extractErrorTypes rt responses = declaredOrderErrorTypes rt responses"
    if "sorted (map decimalValue (filter isArrayIndex (map fst responses)))
        \<and> map fst responses
            = filter isArrayIndex (map fst responses)
              @ filter (\<lambda>k. \<not> isArrayIndex k) (map fst responses)"
    using that Object_keys_declared [of responses]
    by (simp add: extractErrorTypes_errorUnion declaredOrderErrorTypes_def)
  show "extractErrorTypes rt responses = None"
    if "errorStatusesOf (Object_keys responses) = []"
    using that by (simp add: extractErrorTypes_errorUnion errorUnion_def)
  show "methodReturnType rt responses = js ''Promise<ApiResult<TResponse>>''"
    if "errorStatusesOf (Object_keys responses) = []"
    using that by (rule methodReturnType_omitted)
  show "methodReturnType rt responses = js ''Promise<ApiResult<TResponse, '' @ e @ js ''>>''"
    if "extractErrorTypes rt responses = Some e \<and> e \<noteq> []" for e
    using that by (simp add: methodReturnType_present)
qed

lemma parseInt_examples:
  "parseInt (js ''200'') = Some 200" "parseInt (js ''404'') = Some 404"
  "parseInt (js ''500'') = Some 500" "parseInt (js ''default'') = None"
  "parseInt (js '' 0x1F4'') = Some 500" "parseInt (js ''-404'') = Some (- 404)"
  "parseInt (js ''4XX'') = Some 4"
  by (simp_all add: parseInt_def js_def isStrWhiteSpace_def digitValue_def isDigit_def
      isLower_def isUpper_def)

lemma numberText_examples:
  "numberText rt (Some 404) = js ''404''" "numberText rt (Some 500) = js ''500''"
  by (simp_all add: numberText_def js_def decimalDigits.simps [of 404]
      decimalDigits.simps [of 500] decimalDigits.simps [of 40] decimalDigits.simps [of 50]
      decimalDigits.simps [of 4] decimalDigits.simps [of 5])


lemma isArrayIndex_examples:
  "isArrayIndex (js ''200'')" "isArrayIndex (js ''201'')" "isArrayIndex (js ''204'')"
  "isArrayIndex (js ''404'')" "isArrayIndex (js ''500'')"
  by (simp_all add: isArrayIndex_def js_def isDigit_def decimalValue_def)

lemma decimalValue_examples:
  "decimalValue (js ''200'') = 200" "decimalValue (js ''201'') = 201"
  "decimalValue (js ''204'') = 204" "decimalValue (js ''404'') = 404"
  "decimalValue (js ''500'') = 500"
  by (simp_all add: decimalValue_def js_def)

lemma Object_keys_examples:
  "Object_keys unorderedResponses = [js ''200'', js ''404'', js ''500'']"
  "Object_keys (op_responses listPosts) = [js ''200'', js ''404'']"
  "Object_keys createdResponses = [js ''201'', js ''204'']"
  by (simp_all add: Object_keys_order unorderedResponses_def listPosts_def
      createdResponses_def isArrayIndex_examples decimalValue_examples)

lemma errorUnion_examples:
  "errorUnion rt (errorStatusesOf [js ''200'', js ''404'', js ''500'']) = Some (js ''404 | 500'')"
  "errorUnion rt (errorStatusesOf [js ''200'', js ''500'', js ''404'']) = Some (js ''500 | 404'')"
  "errorUnion rt (errorStatusesOf [js ''200'', js ''404'']) = Some (js ''404'')"
  "errorStatusesOf [js ''201'', js ''204''] = []"
  by (simp_all add: errorUnion_def errorStatusesOf_def parseInt_examples numberText_examples)
     (simp_all add: js_def parseInt_def isStrWhiteSpace_def digitValue_def isDigit_def)

theorem extractErrorTypes_enumeration_order_witness:
  "sorted (map decimalValue (filter isArrayIndex (map fst (op_responses listPosts))))
   \<and> map fst (op_responses listPosts)
       = filter isArrayIndex (map fst (op_responses listPosts))
         @ filter (\<lambda>k. \<not> isArrayIndex k) (map fst (op_responses listPosts))
   \<and> extractErrorTypes exampleRuntime (op_responses listPosts) = Some (js ''404'')
   \<and> declaredOrderErrorTypes exampleRuntime (op_responses listPosts) = Some (js ''404'')
   \<and> methodReturnType exampleRuntime (op_responses listPosts)
       = js ''Promise<ApiResult<TResponse, 404>>''
   \<and> extractErrorTypes exampleRuntime unorderedResponses = Some (js ''404 | 500'')
   \<and> methodReturnType exampleRuntime unorderedResponses
       = js ''Promise<ApiResult<TResponse, 404 | 500>>''
   \<and> errorStatusesOf (Object_keys createdResponses) = []
   \<and> extractErrorTypes exampleRuntime createdResponses = None
   \<and> methodReturnType exampleRuntime createdResponses = js ''Promise<ApiResult<TResponse>>''"
proof -
  have keys: "map fst (op_responses listPosts) = [js ''200'', js ''404'']"
    by (simp add: listPosts_def)
  have h1: "sorted (map decimalValue (filter isArrayIndex (map fst (op_responses listPosts))))"
    and h2: "map fst (op_responses listPosts)
       = filter isArrayIndex (map fst (op_responses listPosts))
         @ filter (\<lambda>k. \<not> isArrayIndex k) (map fst (op_responses listPosts))"
    by (simp_all add: keys isArrayIndex_examples decimalValue_examples)
  have h3: "errorStatusesOf (Object_keys createdResponses) = []"
    by (simp add: Object_keys_examples errorUnion_examples)
  note a = extractErrorTypes_enumeration_order [of exampleRuntime "op_responses listPosts"]
  note b = extractErrorTypes_enumeration_order [of exampleRuntime unorderedResponses]
  note c = extractErrorTypes_enumeration_order [of exampleRuntime createdResponses]
  have a1: "extractErrorTypes exampleRuntime (op_responses listPosts) = Some (js ''404'')"
    using a by (simp add: Object_keys_examples errorUnion_examples)
  have ne: "js ''404'' \<noteq> []" "js ''404 | 500'' \<noteq> []"
    by (simp_all add: js_def)
  have "extractErrorTypes exampleRuntime (op_responses listPosts)
        = declaredOrderErrorTypes exampleRuntime (op_responses listPosts)"
    using a h1 h2 by blast
  with a1 have a2: "declaredOrderErrorTypes exampleRuntime (op_responses listPosts) = Some (js ''404'')"
    by simp
  have a3: "methodReturnType exampleRuntime (op_responses listPosts)
       = js ''Promise<ApiResult<TResponse, '' @ js ''404'' @ js ''>>''"
    using a a1 ne(1) by blast
  have b1: "extractErrorTypes exampleRuntime unorderedResponses = Some (js ''404 | 500'')"
    using b by (simp add: Object_keys_examples errorUnion_examples)
  have b2: "methodReturnType exampleRuntime unorderedResponses
       = js ''Promise<ApiResult<TResponse, '' @ js ''404 | 500'' @ js ''>>''"
    using b b1 ne(2) by blast
  have c1: "extractErrorTypes exampleRuntime createdResponses = None
     \<and> methodReturnType exampleRuntime createdResponses = js ''Promise<ApiResult<TResponse>>''"
    using c h3 by blast
  show ?thesis
    using h1 h2 h3 a1 a2 a3 b1 b2 c1 by (simp add: js_def)
qed

text \<open>Responses declared as \<^verbatim>\<open>200, 500, 404\<close>: the union is \<^verbatim>\<open>404 | 500\<close>.\<close>

theorem extractErrorTypes_declared_order_counterexample:
  "extractErrorTypes exampleRuntime unorderedResponses = Some (js ''404 | 500'')
   \<and> declaredOrderErrorTypes exampleRuntime unorderedResponses = Some (js ''500 | 404'')
   \<and> extractErrorTypes exampleRuntime unorderedResponses
       \<noteq> declaredOrderErrorTypes exampleRuntime unorderedResponses"
proof -
  have 1: "extractErrorTypes exampleRuntime unorderedResponses = Some (js ''404 | 500'')"
    by (simp add: extractErrorTypes_errorUnion Object_keys_examples errorUnion_examples)
  have 2: "declaredOrderErrorTypes exampleRuntime unorderedResponses = Some (js ''500 | 404'')"
    by (simp add: declaredOrderErrorTypes_def unorderedResponses_def errorUnion_examples)
  show ?thesis
    by (simp add: 1 2) (simp add: js_def)
qed

section \<open>The success type\<close>

lemma successResponse_chain:
  "orElse (map_of responses (js ''200''))
     (orElse (map_of responses (js ''201'')) (map_of responses (js ''204'')))
   = successResponseOf responses"
  by (cases "map_of responses (js ''200'')"; cases "map_of responses (js ''201'')";
      cases "map_of responses (js ''204'')")
    (simp_all add: orElse_def successResponseOf_def)

lemma jsonSchema_jsonSchemaOf: "jsonSchema r = jsonSchemaOf r"
  by (simp add: jsonSchema_def jsonSchemaOf_def split: option.splits)

lemma extractResponseType_typeOfResponse:
  "extractResponseType depth p responses = typeOfResponse depth p (successResponseOf responses)"
  by (simp add: extractResponseType_def typeOfResponse_def successResponse_chain
      jsonSchema_jsonSchemaOf)

lemma successResponseOf_cases:
  "successResponseOf responses = map_of responses (js ''200'')
   \<or> successResponseOf responses = map_of responses (js ''201'')
   \<or> successResponseOf responses = map_of responses (js ''204'')"
  by (cases "map_of responses (js ''200'')"; cases "map_of responses (js ''201'')";
      cases "map_of responses (js ''204'')")
    (simp_all add: successResponseOf_def)

text \<open>
  C5. The success type is the type of the first response present among the keys
  \<^verbatim>\<open>200\<close>, \<^verbatim>\<open>201\<close>, \<^verbatim>\<open>204\<close>, in that order: the later keys are not looked at once an
  earlier one is present. The type of that response is the type synthesized for the
  resolved schema that its content lists under the media type \<^verbatim>\<open>application/json\<close>.
  When the response has content that does not list \<^verbatim>\<open>application/json\<close> (only
  \<^verbatim>\<open>text/plain\<close>, say), and when none of the three keys provides a schema under
  \<^verbatim>\<open>application/json\<close>, the result is the text \<^verbatim>\<open>unknown\<close>, whatever the depth of stack:
  the function returns a type and has no failing branch of its own.
\<close>

theorem extractResponseType_priority:
  "extractResponseType depth p responses = typeOfResponse depth p (successResponseOf responses)
   \<and> (\<forall>r. map_of responses (js ''200'') = Some r \<longrightarrow>
          extractResponseType depth p responses = typeOfResponse depth p (Some r))
   \<and> (\<forall>r. map_of responses (js ''200'') = None \<and> map_of responses (js ''201'') = Some r \<longrightarrow>
          extractResponseType depth p responses = typeOfResponse depth p (Some r))
   \<and> (map_of responses (js ''200'') = None \<and> map_of responses (js ''201'') = None \<longrightarrow>
          extractResponseType depth p responses
          = typeOfResponse depth p (map_of responses (js ''204'')))
   \<and> (\<forall>r content s.
          successResponseOf responses = Some r \<and> r_content r = Some content
          \<and> map_of content (js ''application/json'') = Some \<lparr>mt_schema = Some s\<rparr> \<longrightarrow>
          extractResponseType depth p responses = schemaToType depth p (resolveSchema p s) {})
   \<and> (\<forall>r content.
          successResponseOf responses = Some r \<and> r_content r = Some content
          \<and> map_of content (js ''application/json'') = None \<longrightarrow>
          extractResponseType depth p responses = Some (js ''unknown''))
   \<and> (\<forall>r. successResponseOf responses = Some r \<and> r_content r = None \<longrightarrow>
          extractResponseType depth p responses = Some (js ''unknown''))
   \<and> (jsonSchemaOf (map_of responses (js ''200'')) = None
       \<and> jsonSchemaOf (map_of responses (js ''201'')) = None
       \<and> jsonSchemaOf (map_of responses (js ''204'')) = None \<longrightarrow>
          extractResponseType depth p responses = Some (js ''unknown''))"
proof (intro conjI allI impI)
  show "extractResponseType depth p responses = typeOfResponse depth p (successResponseOf responses)"
    by (rule extractResponseType_typeOfResponse)
  show "extractResponseType depth p responses = typeOfResponse depth p (Some r)"
    if "map_of responses (js ''200'') = Some r" for r
    using that by (simp add: extractResponseType_typeOfResponse successResponseOf_def)
  show "extractResponseType depth p responses = typeOfResponse depth p (Some r)"
    if "map_of responses (js ''200'') = None \<and> map_of responses (js ''201'') = Some r" for r
    using that by (simp add: extractResponseType_typeOfResponse successResponseOf_def)
  show "extractResponseType depth p responses
          = typeOfResponse depth p (map_of responses (js ''204''))"
    if "map_of responses (js ''200'') = None \<and> map_of responses (js ''201'') = None"
    using that
    by (cases "map_of responses (js ''204'')")
      (simp_all add: extractResponseType_typeOfResponse successResponseOf_def)
  show "extractResponseType depth p responses = schemaToType depth p (resolveSchema p s) {}"
    if "successResponseOf responses = Some r \<and> r_content r = Some content
        \<and> map_of content (js ''application/json'') = Some \<lparr>mt_schema = Some s\<rparr>"
    for r content s
    using that
    by (simp add: extractResponseType_typeOfResponse typeOfResponse_def jsonSchemaOf_def)
  show "extractResponseType depth p responses = Some (js ''unknown'')"
    if "successResponseOf responses = Some r \<and> r_content r = Some content
        \<and> map_of content (js ''application/json'') = None"
    for r content
    using that
    by (simp add: extractResponseType_typeOfResponse typeOfResponse_def jsonSchemaOf_def)
  show "extractResponseType depth p responses = Some (js ''unknown'')"
    if "successResponseOf responses = Some r \<and> r_content r = None" for r
    using that
    by (simp add: extractResponseType_typeOfResponse typeOfResponse_def jsonSchemaOf_def)
  show "extractResponseType depth p responses = Some (js ''unknown'')"
    if "jsonSchemaOf (map_of responses (js ''200'')) = None
       \<and> jsonSchemaOf (map_of responses (js ''201'')) = None
       \<and> jsonSchemaOf (map_of responses (js ''204'')) = None"
    using that successResponseOf_cases [of responses]
    by (auto simp: extractResponseType_typeOfResponse typeOfResponse_def)
qed

lemma petType:
  "schemaToType 2 exampleParser petBody {}
   = Some (js ''{'' @ [0x0A] @ js ''  id: number;'' @ [0x0A] @ js ''  name: string;'' @ [0x0A]
           @ js ''  status?: '' @ quote (js ''available'') @ js '' | '' @ quote (js ''pending'')
           @ js '' | '' @ quote (js ''sold'') @ js '';'' @ [0x0A] @ js ''}'')"
  by code_simp

lemma resolve_Pet_reference:
  "resolveSchema exampleParser (RefSchema (js ''#/components/schemas/Pet'')) = petBody"
  by (simp add: resolveSchema_def schemasPrefix_def replaceFirst_prefix [of "js ''#/components/schemas/''" "[]" "js ''Pet''", simplified]
      exampleParser_eq js_def)

theorem extractResponseType_priority_witness:
  "map_of petCreatedResponses (js ''200'') = None
   \<and> extractResponseType 2 exampleParser petCreatedResponses
       = Some (js ''{'' @ [0x0A] @ js ''  id: number;'' @ [0x0A] @ js ''  name: string;''
               @ [0x0A] @ js ''  status?: '' @ quote (js ''available'') @ js '' | ''
               @ quote (js ''pending'') @ js '' | '' @ quote (js ''sold'') @ js '';''
               @ [0x0A] @ js ''}'')
   \<and> extractResponseType 1 exampleParser mixedResponses = Some (js ''boolean'')
   \<and> extractResponseType 1 exampleParser textResponses = Some (js ''unknown'')
   \<and> extractResponseType 1 exampleParser shadowedResponses = Some (js ''unknown'')
   \<and> jsonSchemaOf (map_of (op_responses listPosts) (js ''200'')) = None
   \<and> jsonSchemaOf (map_of (op_responses listPosts) (js ''201'')) = None
   \<and> jsonSchemaOf (map_of (op_responses listPosts) (js ''204'')) = None
   \<and> extractResponseType 0 exampleParser (op_responses listPosts) = Some (js ''unknown'')"
proof -
  let ?pet = "\<lparr>r_description = js ''created'',
        r_content = Some [(js ''application/json'',
                           \<lparr>mt_schema = Some (RefSchema (js ''#/components/schemas/Pet''))\<rparr>)]\<rparr>"
  let ?text = "\<lparr>r_description = js ''ok'',
        r_content = Some [(js ''text/plain'', \<lparr>mt_schema = Some (StringSchema None)\<rparr>)]\<rparr>"
  let ?mixed = "\<lparr>r_description = js ''ok'',
        r_content = Some [(js ''text/plain'', \<lparr>mt_schema = Some (StringSchema None)\<rparr>),
                          (js ''application/json'', \<lparr>mt_schema = Some BooleanSchema\<rparr>)]\<rparr>"
  have a: "map_of petCreatedResponses (js ''200'') = None"
    and a': "successResponseOf petCreatedResponses = Some ?pet"
    and a'': "map_of [(js ''application/json'',
                \<lparr>mt_schema = Some (RefSchema (js ''#/components/schemas/Pet''))\<rparr>)]
                (js ''application/json'')
              = Some \<lparr>mt_schema = Some (RefSchema (js ''#/components/schemas/Pet''))\<rparr>"
    by (simp_all add: petCreatedResponses_def successResponseOf_def js_def)
  have a3: "r_content ?pet = Some [(js ''application/json'',
                \<lparr>mt_schema = Some (RefSchema (js ''#/components/schemas/Pet''))\<rparr>)]"
    by simp
  have c: "jsonSchemaOf (map_of (op_responses listPosts) (js ''200'')) = None"
    "jsonSchemaOf (map_of (op_responses listPosts) (js ''201'')) = None"
    "jsonSchemaOf (map_of (op_responses listPosts) (js ''204'')) = None"
    by (simp_all add: listPosts_def js_def jsonSchemaOf_def plainResponse_def)
  have "extractResponseType 2 exampleParser petCreatedResponses
        = schemaToType 2 exampleParser
            (resolveSchema exampleParser (RefSchema (js ''#/components/schemas/Pet''))) {}"
    using extractResponseType_priority [of 2 exampleParser petCreatedResponses] a' a'' a3
    by blast
  also have "\<dots> = schemaToType 2 exampleParser petBody {}"
    by (simp only: resolve_Pet_reference)
  also note petType
  finally have d: "extractResponseType 2 exampleParser petCreatedResponses
       = Some (js ''{'' @ [0x0A] @ js ''  id: number;'' @ [0x0A] @ js ''  name: string;''
               @ [0x0A] @ js ''  status?: '' @ quote (js ''available'') @ js '' | ''
               @ quote (js ''pending'') @ js '' | '' @ quote (js ''sold'') @ js '';''
               @ [0x0A] @ js ''}'')" .
  have m: "successResponseOf mixedResponses = Some ?mixed"
    and m': "map_of [(js ''text/plain'', \<lparr>mt_schema = Some (StringSchema None)\<rparr>),
                     (js ''application/json'', \<lparr>mt_schema = Some BooleanSchema\<rparr>)]
               (js ''application/json'') = Some \<lparr>mt_schema = Some BooleanSchema\<rparr>"
    by (simp_all add: mixedResponses_def successResponseOf_def js_def)
  have m3: "r_content ?mixed
            = Some [(js ''text/plain'', \<lparr>mt_schema = Some (StringSchema None)\<rparr>),
                    (js ''application/json'', \<lparr>mt_schema = Some BooleanSchema\<rparr>)]"
    by simp
  have "extractResponseType 1 exampleParser mixedResponses
        = schemaToType 1 exampleParser (resolveSchema exampleParser BooleanSchema) {}"
    using extractResponseType_priority [of 1 exampleParser mixedResponses] m m' m3
    by blast
  also have "\<dots> = Some (js ''boolean'')"
    by (simp add: resolveSchema_def)
  finally have e: "extractResponseType 1 exampleParser mixedResponses = Some (js ''boolean'')" .
  have t: "successResponseOf textResponses = Some ?text"
    and t': "map_of [(js ''text/plain'', \<lparr>mt_schema = Some (StringSchema None)\<rparr>)]
               (js ''application/json'') = None"
    by (simp_all add: textResponses_def successResponseOf_def js_def)
  have t3: "r_content ?text
            = Some [(js ''text/plain'', \<lparr>mt_schema = Some (StringSchema None)\<rparr>)]"
    by simp
  have f: "extractResponseType 1 exampleParser textResponses = Some (js ''unknown'')"
    using extractResponseType_priority [of 1 exampleParser textResponses] t t' t3
    by blast
  have s: "successResponseOf shadowedResponses = Some (plainResponse ''ok'')"
    and s': "r_content (plainResponse ''ok'') = None"
    by (simp_all add: shadowedResponses_def successResponseOf_def plainResponse_def js_def)
  have g: "extractResponseType 1 exampleParser shadowedResponses = Some (js ''unknown'')"
    using extractResponseType_priority [of 1 exampleParser shadowedResponses] s s' by blast
  have h: "extractResponseType 0 exampleParser (op_responses listPosts) = Some (js ''unknown'')"
    using extractResponseType_priority [of 0 exampleParser "op_responses listPosts"] c by blast
  show ?thesis using a c d e f g h by simp
qed

section \<open>Two runs\<close>

lemma those_map_mono:
  assumes "those (map f xs) = Some ys"
    and "\<And>x y. x \<in> set xs \<Longrightarrow> f x = Some y \<Longrightarrow> g x = Some y"
  shows "those (map g xs) = Some ys"
  using assms
proof (induction xs arbitrary: ys)
  case Nil
  then show ?case by simp
next
  case (Cons x xs)
  from Cons.prems(1) obtain y zs where y: "f x = Some y" and zs: "those (map f xs) = Some zs"
    and ys: "ys = y # zs"
    by (auto split: option.splits)
  from Cons.prems(2) [of x y] y have "g x = Some y" by simp
  moreover have "those (map g xs) = Some zs"
    using Cons.IH [OF zs] Cons.prems(2) by simp
  ultimately show ?case by (simp add: ys)
qed

lemma schemaToType_Suc:
  "schemaToType depth p s visited = Some t \<Longrightarrow> schemaToType (Suc depth) p s visited = Some t"
proof (induction depth arbitrary: s visited t)
  case 0
  then show ?case by simp
next
  case (Suc depth)
  show ?case
  proof (cases "resolveSchema p s")
    case (StringSchema enum)
    with Suc.prems show ?thesis by simp
  next
    case NumberSchema
    with Suc.prems show ?thesis by simp
  next
    case IntegerSchema
    with Suc.prems show ?thesis by simp
  next
    case BooleanSchema
    with Suc.prems show ?thesis by simp
  next
    case (ArraySchema items)
    with Suc.prems obtain u where u: "schemaToType depth p items visited = Some u"
      and t: "t = js ''Array<'' @ u @ js ''>''"
      by auto
    from Suc.IH [OF u] t ArraySchema show ?thesis
      by (simp del: schemaToType.simps add: schemaToType.simps(2) [of "Suc depth"])
  next
    case (ObjectSchema properties required)
    show ?thesis
    proof (cases properties)
      case None
      with ObjectSchema Suc.prems show ?thesis by simp
    next
      case (Some ps)
      let ?line = "\<lambda>d. \<lambda>(key, value).
                    map_option
                      (\<lambda>t. js ''  '' @ key @ (if isRequired required key then [] else js ''?'')
                            @ js '': '' @ t @ js '';'')
                      (schemaToType d p value visited)"
      from Suc.prems ObjectSchema Some obtain ls where
        ls: "those (map (?line depth) (Object_entries ps)) = Some ls"
        and t: "t = js ''{'' @ [0x0A] @ join [0x0A] ls @ [0x0A] @ js ''}''"
        by auto
      have "those (map (?line (Suc depth)) (Object_entries ps)) = Some ls"
        using ls by (rule those_map_mono) (auto dest: Suc.IH)
      with t ObjectSchema Some show ?thesis
        by (simp del: schemaToType.simps add: schemaToType.simps(2) [of "Suc depth"])
    qed
  next
    case (RefSchema ref)
    show ?thesis
    proof (cases "replaceFirst schemasPrefix [] ref \<in> visited")
      case True
      with RefSchema Suc.prems show ?thesis by simp
    next
      case False
      show ?thesis
      proof (cases "map_of (schemas p) (replaceFirst schemasPrefix [] ref)")
        case None
        with False RefSchema Suc.prems show ?thesis by simp
      next
        case (Some referencedSchema)
        with False RefSchema Suc.prems
        have "schemaToType depth p referencedSchema
                (insert (replaceFirst schemasPrefix [] ref) visited) = Some t"
          by simp
        from Suc.IH [OF this] False RefSchema Some show ?thesis
          by (simp del: schemaToType.simps add: schemaToType.simps(2) [of "Suc depth"])
      qed
    qed
  next
    case (OneOf members)
    with Suc.prems obtain ts where
      ts: "those (map (\<lambda>m. schemaToType depth p m visited) members) = Some ts"
      and t: "t = join (js '' | '') ts"
      by auto
    have "those (map (\<lambda>m. schemaToType (Suc depth) p m visited) members) = Some ts"
      using ts by (rule those_map_mono) (rule Suc.IH)
    with t OneOf show ?thesis
      by (simp del: schemaToType.simps add: schemaToType.simps(2) [of "Suc depth"])
  next
    case (AllOf members)
    with Suc.prems obtain ts where
      ts: "those (map (\<lambda>m. schemaToType depth p m visited) members) = Some ts"
      and t: "t = join (js '' & '') ts"
      by auto
    have "those (map (\<lambda>m. schemaToType (Suc depth) p m visited) members) = Some ts"
      using ts by (rule those_map_mono) (rule Suc.IH)
    with t AllOf show ?thesis
      by (simp del: schemaToType.simps add: schemaToType.simps(2) [of "Suc depth"])
  next
    case (AnyOf members)
    with Suc.prems obtain ts where
      ts: "those (map (\<lambda>m. schemaToType depth p m visited) members) = Some ts"
      and t: "t = join (js '' | '') ts"
      by auto
    have "those (map (\<lambda>m. schemaToType (Suc depth) p m visited) members) = Some ts"
      using ts by (rule those_map_mono) (rule Suc.IH)
    with t AnyOf show ?thesis
      by (simp del: schemaToType.simps add: schemaToType.simps(2) [of "Suc depth"])
  next
    case OtherSchema
    with Suc.prems show ?thesis by simp
  qed
qed

lemma schemaToType_deeper:
  "schemaToType depth p s visited = Some t \<Longrightarrow> schemaToType (depth + k) p s visited = Some t"
  by (induction k) (simp_all add: schemaToType_Suc del: schemaToType.simps)

lemma schemaToType_depth_independent:
  assumes "schemaToType d1 p s visited = Some t1" and "schemaToType d2 p s visited = Some t2"
  shows "t1 = t2"
proof -
  have "schemaToType (d1 + d2) p s visited = Some t1"
    using assms(1) by (rule schemaToType_deeper)
  moreover have "schemaToType (d2 + d1) p s visited = Some t2"
    using assms(2) by (rule schemaToType_deeper)
  ultimately show ?thesis by (simp add: add.commute)
qed

text \<open>
  What a run leaves of the store, and the text a run on the store returns: that of
  \<^verbatim>\<open>schemaToType\<close> as a function of the parser, the node and the elements of the
  visited set.
\<close>

lemma preserved_refl: "preserved h h"
  by (simp add: preserved_def)

lemma preserved_trans: "preserved h1 h2 \<Longrightarrow> preserved h2 h3 \<Longrightarrow> preserved h1 h3"
  by (auto simp: preserved_def)

lemma prefix_update: "prefix xs ys \<Longrightarrow> length xs \<le> r \<Longrightarrow> prefix xs (ys[r := v])"
  by (auto simp: prefix_def list_update_append)

lemma preserved_copy_add:
  "preserved h (Set_add (fst (copySet visited h)) x (snd (copySet visited h)))"
  by (simp add: preserved_def copySet_def Set_add_def)

lemma preserved_nth:
  "preserved h h' \<Longrightarrow> r < length (st_sets h) \<Longrightarrow> st_sets h' ! r = st_sets h ! r"
  by (auto simp: preserved_def prefix_def nth_append)

lemma preserved_length:
  "preserved h h' \<Longrightarrow> r < length (st_sets h) \<Longrightarrow> r < length (st_sets h')"
  by (auto simp: preserved_def prefix_def)

lemma mapStore_preserved:
  assumes "\<And>x h y h'. x \<in> set xs \<Longrightarrow> f x h = Some (y, h') \<Longrightarrow> preserved h h'"
    and "mapStore f xs h = Some (ys, h')"
  shows "preserved h h'"
  using assms
proof (induction xs arbitrary: h ys h')
  case Nil
  then show ?case by (simp add: preserved_refl)
next
  case (Cons x xs)
  from Cons.prems(2) obtain y h1 zs where y: "f x h = Some (y, h1)"
    and zs: "mapStore f xs h1 = Some (zs, h')"
    by (auto split: option.splits)
  have "preserved h h1" using Cons.prems(1) [of x h y h1] y by simp
  moreover have "preserved h1 h'"
    using Cons.IH [OF _ zs] Cons.prems(1) by (meson list.set_intros(2))
  ultimately show ?case by (rule preserved_trans)
qed

lemma schemaToType_store_preserved:
  "schemaToType_store depth s visited h = Some (t, h') \<Longrightarrow> preserved h h'"
proof (induction depth arbitrary: s visited h t h')
  case 0
  then show ?case by simp
next
  case (Suc depth)
  show ?case
  proof (cases "resolveSchema (st_parser h) s")
    case (RefSchema ref)
    show ?thesis
    proof (cases "Set_has visited (replaceFirst schemasPrefix [] ref) h")
      case True
      with RefSchema Suc.prems show ?thesis by (simp add: preserved_refl)
    next
      case False
      show ?thesis
      proof (cases "map_of (schemas (st_parser h)) (replaceFirst schemasPrefix [] ref)")
        case None
        with False RefSchema Suc.prems show ?thesis by (simp add: preserved_refl)
      next
        case (Some referencedSchema)
        let ?h2 = "Set_add (fst (copySet visited h)) (replaceFirst schemasPrefix [] ref)
                     (snd (copySet visited h))"
        from Some False RefSchema Suc.prems
        have "schemaToType_store depth referencedSchema (fst (copySet visited h)) ?h2 = Some (t, h')"
          by (simp add: split_def Let_def)
        then have "preserved ?h2 h'" by (rule Suc.IH)
        with preserved_copy_add show ?thesis by (rule preserved_trans)
      qed
    qed
  next
    case (ObjectSchema properties required)
    show ?thesis
    proof (cases properties)
      case None
      with ObjectSchema Suc.prems show ?thesis by (simp add: preserved_refl)
    next
      case (Some ps)
      with ObjectSchema Suc.prems obtain props where
        "mapStore (\<lambda>(key, value) h.
                    map_option
                      (\<lambda>(t, h'). (js ''  '' @ key
                                    @ (if isRequired required key then [] else js ''?'')
                                    @ js '': '' @ t @ js '';'', h'))
                      (schemaToType_store depth value visited h))
                  (Object_entries ps) h = Some (props, h')"
        by auto
      then show ?thesis
        by (rule mapStore_preserved [rotated]) (auto dest: Suc.IH)
    qed
  next
    case (OneOf members)
    with Suc.prems obtain ts where
      "mapStore (\<lambda>m h. schemaToType_store depth m visited h) members h = Some (ts, h')"
      by auto
    then show ?thesis by (rule mapStore_preserved [rotated]) (rule Suc.IH)
  next
    case (AllOf members)
    with Suc.prems obtain ts where
      "mapStore (\<lambda>m h. schemaToType_store depth m visited h) members h = Some (ts, h')"
      by auto
    then show ?thesis by (rule mapStore_preserved [rotated]) (rule Suc.IH)
  next
    case (AnyOf members)
    with Suc.prems obtain ts where
      "mapStore (\<lambda>m h. schemaToType_store depth m visited h) members h = Some (ts, h')"
      by auto
    then show ?thesis by (rule mapStore_preserved [rotated]) (rule Suc.IH)
  next
    case (ArraySchema items)
    with Suc.prems show ?thesis by (auto dest: Suc.IH)
  qed (use Suc.prems in \<open>auto simp: preserved_refl split: option.splits\<close>)
qed


lemma mapStore_refines:
  assumes "\<And>x h. x \<in> set xs \<Longrightarrow> preserved h0 h \<Longrightarrow> map_option fst (f x h) = g x"
    and "\<And>x h y h'. x \<in> set xs \<Longrightarrow> f x h = Some (y, h') \<Longrightarrow> preserved h h'"
    and "preserved h0 h"
  shows "map_option fst (mapStore f xs h) = those (map g xs)"
  using assms
proof (induction xs arbitrary: h)
  case Nil
  show ?case by simp
next
  case (Cons x xs)
  have head: "map_option fst (f x h) = g x"
    using Cons.prems(1) [of x h] Cons.prems(3) by simp
  show ?case
  proof (cases "f x h")
    case None
    with head show ?thesis by simp
  next
    case (Some yh)
    obtain y h1 where yh: "yh = (y, h1)" by (cases yh)
    from Some yh head have g: "g x = Some y" by simp
    have "preserved h h1" using Cons.prems(2) [of x h y h1] Some yh by simp
    with Cons.prems(3) have h1: "preserved h0 h1" by (rule preserved_trans)
    have tail: "map_option fst (mapStore f xs h1) = those (map g xs)"
    proof (rule Cons.IH [OF _ _ h1])
      show "map_option fst (f x' h') = g x'" if "x' \<in> set xs" "preserved h0 h'" for x' h'
        using that Cons.prems(1) [of x' h'] by simp
      show "preserved h' h''" if "x' \<in> set xs" "f x' h' = Some (y', h'')" for x' h' y' h''
        using that Cons.prems(2) [of x' h' y' h''] by simp
    qed
    show ?thesis
      using Some yh g tail [symmetric] by (cases "mapStore f xs h1") auto
  qed
qed

lemma schemaToType_store_refines:
  "visited < length (st_sets h) \<Longrightarrow>
   map_option fst (schemaToType_store depth s visited h)
   = schemaToType depth (st_parser h) s (set (st_sets h ! visited))"
proof (induction depth arbitrary: s visited h)
  case 0
  show ?case by simp
next
  case (Suc depth)
  note valid = Suc.prems
  have members:
    "map_option fst (mapStore (\<lambda>m h. schemaToType_store depth m visited h) ms h)
     = those (map (\<lambda>m. schemaToType depth (st_parser h) m (set (st_sets h ! visited))) ms)"
    for ms
  proof (rule mapStore_refines [where ?h0.0 = h])
    show "preserved h h" by (rule preserved_refl)
    show "preserved h1 h2" if "schemaToType_store depth m visited h1 = Some (y, h2)" for m h1 y h2
      using that by (rule schemaToType_store_preserved)
    show "map_option fst (schemaToType_store depth m visited h1)
          = schemaToType depth (st_parser h) m (set (st_sets h ! visited))"
      if "preserved h h1" for m h1
      using Suc.IH [of visited h1 m] that valid
      by (simp add: preserved_nth preserved_length) (simp add: preserved_def)
  qed
  show ?case
  proof (cases "resolveSchema (st_parser h) s")
    case (RefSchema ref)
    let ?name = "replaceFirst schemasPrefix [] ref"
    show ?thesis
    proof (cases "?name \<in> set (st_sets h ! visited)")
      case True
      with RefSchema show ?thesis by (simp add: Set_has_def)
    next
      case False
      show ?thesis
      proof (cases "map_of (schemas (st_parser h)) ?name")
        case None
        with False RefSchema show ?thesis by (simp add: Set_has_def)
      next
        case (Some referencedSchema)
        let ?new = "fst (copySet visited h)"
        let ?h2 = "Set_add ?new ?name (snd (copySet visited h))"
        have new: "?new < length (st_sets ?h2)"
          and parser: "st_parser ?h2 = st_parser h"
          and elems: "set (st_sets ?h2 ! ?new) = insert ?name (set (st_sets h ! visited))"
          using False by (simp_all add: copySet_def Set_add_def)
        have "map_option fst (schemaToType_store (Suc depth) s visited h)
              = map_option fst (schemaToType_store depth referencedSchema ?new ?h2)"
          using Some False RefSchema by (simp add: Set_has_def split_def Let_def)
        also have "\<dots> = schemaToType depth (st_parser h) referencedSchema
                            (insert ?name (set (st_sets h ! visited)))"
          using Suc.IH [OF new, of referencedSchema] by (simp only: parser elems)
        also have "\<dots> = schemaToType (Suc depth) (st_parser h) s (set (st_sets h ! visited))"
          using Some False RefSchema by simp
        finally show ?thesis .
      qed
    qed
  next
    case (ObjectSchema properties required)
    show ?thesis
    proof (cases properties)
      case None
      with ObjectSchema show ?thesis by simp
    next
      case (Some ps)
      let ?f = "\<lambda>(key, value) h.
                    map_option
                      (\<lambda>(t, h'). (js ''  '' @ key
                                    @ (if isRequired required key then [] else js ''?'')
                                    @ js '': '' @ t @ js '';'', h'))
                      (schemaToType_store depth value visited h)"
      let ?g = "\<lambda>(key, value).
                    map_option
                      (\<lambda>t. js ''  '' @ key @ (if isRequired required key then [] else js ''?'')
                            @ js '': '' @ t @ js '';'')
                      (schemaToType depth (st_parser h) value (set (st_sets h ! visited)))"
      have lines: "map_option fst (mapStore ?f (Object_entries ps) h)
                   = those (map ?g (Object_entries ps))"
      proof (rule mapStore_refines [where ?h0.0 = h])
        show "preserved h h" by (rule preserved_refl)
        show "preserved h1 h2" if "?f kv h1 = Some (y, h2)" for kv h1 y h2
          using that by (cases kv) (auto dest: schemaToType_store_preserved)
        show "map_option fst (?f kv h1) = ?g kv" if "preserved h h1" for kv h1
        proof -
          obtain key val where kv: "kv = (key, val)" by (cases kv)
          have "map_option fst (schemaToType_store depth val visited h1)
                = schemaToType depth (st_parser h) val (set (st_sets h ! visited))"
            using Suc.IH [of visited h1 val] that valid
            by (simp add: preserved_nth preserved_length) (simp add: preserved_def)
          then have "schemaToType depth (st_parser h) val (set (st_sets h ! visited))
                     = map_option fst (schemaToType_store depth val visited h1)"
            by simp
          then show ?thesis
            by (cases "schemaToType_store depth val visited h1") (auto simp: kv)
        qed
      qed
      show ?thesis
        using lines [symmetric] Some ObjectSchema
        by (cases "mapStore ?f (Object_entries ps) h") (auto simp del: mapStore.simps)
    qed
  next
    case (OneOf ms)
    with members [of ms, symmetric] show ?thesis
      by (cases "mapStore (\<lambda>m h. schemaToType_store depth m visited h) ms h") auto
  next
    case (AllOf ms)
    with members [of ms, symmetric] show ?thesis
      by (cases "mapStore (\<lambda>m h. schemaToType_store depth m visited h) ms h") auto
  next
    case (AnyOf ms)
    with members [of ms, symmetric] show ?thesis
      by (cases "mapStore (\<lambda>m h. schemaToType_store depth m visited h) ms h") auto
  next
    case (ArraySchema items)
    with Suc.IH [OF valid, of items, symmetric] show ?thesis
      by (cases "schemaToType_store depth items visited h") auto
  qed (auto split: option.splits)
qed


lemma callSchemaToType_refines:
  "map_option fst (callSchemaToType depth s h) = schemaToType depth (st_parser h) s {}"
  using schemaToType_store_refines [of "length (st_sets h)" "snd (newSet h)" depth s]
  by (simp add: callSchemaToType_def newSet_def)

lemma callSchemaToType_preserved:
  assumes "callSchemaToType depth s h = Some (t, h')"
  shows "preserved h h'"
proof -
  have "preserved h (snd (newSet h))"
    by (simp add: preserved_def newSet_def)
  moreover have "preserved (snd (newSet h)) h'"
    using assms by (auto simp: callSchemaToType_def split_def Let_def dest: schemaToType_store_preserved)
  ultimately show ?thesis by (rule preserved_trans)
qed

lemma fold_push_methods:
  "r < length (st_arrays h) \<Longrightarrow>
   fold (\<lambda>m h.
           (case pathItemOperation item m of
              None \<Rightarrow> h
            | Some operation \<Rightarrow> Array_push r (buildEndpoint rt m path item operation) h)) ms h
   = h\<lparr>st_arrays := (st_arrays h)
         [r := st_arrays h ! r
               @ concat (map (\<lambda>m. case pathItemOperation item m of
                                     None \<Rightarrow> []
                                   | Some operation \<Rightarrow> [buildEndpoint rt m path item operation]) ms)]\<rparr>"
  by (induction ms arbitrary: h) (auto simp: Array_push_def split: option.splits)

lemma fold_push_paths:
  "r < length (st_arrays h) \<Longrightarrow>
   fold (\<lambda>(path, item) h.
           fold (\<lambda>m h.
                   (case pathItemOperation item m of
                      None \<Rightarrow> h
                    | Some operation \<Rightarrow> Array_push r (buildEndpoint rt m path item operation) h))
                methods h) entries h
   = h\<lparr>st_arrays := (st_arrays h)
         [r := st_arrays h ! r
               @ concat (map (\<lambda>(path, item). endpointsOfPath rt path item) entries)]\<rparr>"
  by (induction entries arbitrary: h) (auto simp: fold_push_methods endpointsOfPath_def)

lemma extractEndpoints_store_eq:
  "extractEndpoints_store rt h
   = (length (st_arrays h), h\<lparr>st_arrays := st_arrays h @ [extractEndpoints rt (st_parser h)]\<rparr>)"
  by (simp add: extractEndpoints_store_def newArray_def fold_push_paths extractEndpoints_eq)

lemma callSchemaToType_returns:
  assumes "callSchemaToType d s h = Some (t, h')"
  shows "schemaToType d (st_parser h) s {} = Some t"
  using callSchemaToType_refines [of d s h] assms by simp

lemma endpointKeys_exampleParser:
  "endpointKeys (extractEndpoints exampleRuntime exampleParser)
   = [(js ''/users/{id}/posts'', GET), (js ''/users/{id}/posts'', POST),
      (js ''/pets'', GET), (js ''/pets'', DELETE)]"
proof -
  have "Object_entries examplePaths = examplePaths"
    by (rule Object_entries_no_index) (simp add: examplePaths_def slash_not_index js_def)
  then show ?thesis
    by (simp add: extractEndpoints_eq endpointKeys_entries example_paths
        declaredOrder_examplePaths)
qed

text \<open>
  C9. Two runs in a row on the same objects, the second starting from the store that the
  first has left. (1) Two calls of \<^verbatim>\<open>schemaToType\<close> on the same node with a new empty
  visited set that both return, return the same text, whatever stack each of them had;
  and each leaves the parser, with its document and its registry, and every set and
  array that existed before it, as they were. (2) When the first call returns, the
  second returns too, with the same text, on the same stack or a deeper one. (3) The
  text, and whether the call returns, depend on the parser only, not on the sets and
  arrays that earlier runs have left in the store. (4) The text is that of
  \<^verbatim>\<open>schemaToType\<close> as a function of the parser and the node. (5) Two calls of
  \<^verbatim>\<open>extractEndpoints\<close> return two different arrays with the same endpoints in the
  same order; the second call leaves the array of the first as it was, and both leave
  the parser and all earlier objects as they were. (6) The endpoints in the array are
  those of \<^verbatim>\<open>extractEndpoints\<close> as a function of the parser.
\<close>

theorem two_runs_identical:
  "(callSchemaToType d s h = Some (t, h') \<and> callSchemaToType d' s h' = Some (t', h'') \<longrightarrow>
      t = t' \<and> preserved h h' \<and> preserved h' h'')
   \<and> (callSchemaToType d s h = Some (t, h') \<and> d \<le> d' \<longrightarrow>
        (\<exists>h3. callSchemaToType d' s h' = Some (t, h3)))
   \<and> (st_parser k = st_parser h \<longrightarrow>
        map_option fst (callSchemaToType d s k) = map_option fst (callSchemaToType d s h))
   \<and> map_option fst (callSchemaToType d s h) = schemaToType d (st_parser h) s {}
   \<and> (extractEndpoints_store rt g = (a, g') \<and> extractEndpoints_store rt g' = (a', g'') \<longrightarrow>
        Array_values a' g'' = Array_values a g' \<and> Array_values a g'' = Array_values a g'
        \<and> a \<noteq> a' \<and> preserved g g' \<and> preserved g' g'')
   \<and> (extractEndpoints_store rt g = (a, g') \<longrightarrow>
        Array_values a g' = extractEndpoints rt (st_parser g) \<and> preserved g g')"
proof (intro conjI impI)
  assume runs: "callSchemaToType d s h = Some (t, h') \<and> callSchemaToType d' s h' = Some (t', h'')"
  then show p1: "preserved h h'" and "preserved h' h''"
    by (auto dest: callSchemaToType_preserved)
  from runs have "schemaToType d (st_parser h) s {} = Some t"
    by (simp add: callSchemaToType_returns)
  moreover from runs have "schemaToType d' (st_parser h') s {} = Some t'"
    by (simp add: callSchemaToType_returns)
  moreover have "st_parser h' = st_parser h"
    using p1 by (simp add: preserved_def)
  ultimately show "t = t'"
    using schemaToType_depth_independent [of d "st_parser h" s "{}" t d' t'] by simp
next
  assume run: "callSchemaToType d s h = Some (t, h') \<and> d \<le> d'"
  then have "preserved h h'" by (auto dest: callSchemaToType_preserved)
  then have parser: "st_parser h' = st_parser h" by (simp add: preserved_def)
  from run have "schemaToType d (st_parser h) s {} = Some t"
    by (simp add: callSchemaToType_returns)
  then have "schemaToType (d + (d' - d)) (st_parser h) s {} = Some t"
    by (rule schemaToType_deeper)
  with run have "schemaToType d' (st_parser h') s {} = Some t"
    by (simp add: parser)
  then have "map_option fst (callSchemaToType d' s h') = Some t"
    by (simp only: callSchemaToType_refines)
  then show "\<exists>h3. callSchemaToType d' s h' = Some (t, h3)"
    by auto
next
  assume "st_parser k = st_parser h"
  then show "map_option fst (callSchemaToType d s k) = map_option fst (callSchemaToType d s h)"
    by (simp only: callSchemaToType_refines)
next
  show "map_option fst (callSchemaToType d s h) = schemaToType d (st_parser h) s {}"
    by (rule callSchemaToType_refines)
next
  assume runs: "extractEndpoints_store rt g = (a, g') \<and> extractEndpoints_store rt g' = (a', g'')"
  then have 1: "a = length (st_arrays g)"
    "g' = g\<lparr>st_arrays := st_arrays g @ [extractEndpoints rt (st_parser g)]\<rparr>"
    and 2: "a' = length (st_arrays g')"
    "g'' = g'\<lparr>st_arrays := st_arrays g' @ [extractEndpoints rt (st_parser g')]\<rparr>"
    by (simp_all add: extractEndpoints_store_eq)
  show "Array_values a' g'' = Array_values a g'"
    by (simp add: 1 2 Array_values_def nth_append)
  show "Array_values a g'' = Array_values a g'"
    by (simp add: 1 2 Array_values_def nth_append)
  show "a \<noteq> a'" by (simp add: 1 2)
  show "preserved g g'" by (simp add: 1 preserved_def)
  show "preserved g' g''" by (simp add: 2 preserved_def)
next
  assume "extractEndpoints_store rt g = (a, g')"
  then have 1: "a = length (st_arrays g)"
    "g' = g\<lparr>st_arrays := st_arrays g @ [extractEndpoints rt (st_parser g)]\<rparr>"
    by (simp_all add: extractEndpoints_store_eq)
  show "Array_values a g' = extractEndpoints rt (st_parser g)"
    by (simp add: 1 Array_values_def)
  show "preserved g g'" by (simp add: 1 preserved_def)
qed

lemma aliasRuns:
  "callSchemaToType 2 (RefSchema (js ''#/components/schemas/X'')) petStore
   = Some (js ''Y'', petStore\<lparr>st_sets := [[], [js ''Y'']]\<rparr>)"
  "callSchemaToType 5 (RefSchema (js ''#/components/schemas/X''))
     (petStore\<lparr>st_sets := [[], [js ''Y'']]\<rparr>)
   = Some (js ''Y'', petStore\<lparr>st_sets := [[], [js ''Y''], [], [js ''Y'']]\<rparr>)"
  by code_simp+

lemma endpointRuns:
  "extractEndpoints_store exampleRuntime exampleStore
   = (0, exampleStore\<lparr>st_arrays := [extractEndpoints exampleRuntime exampleParser]\<rparr>)"
  "extractEndpoints_store exampleRuntime
     (exampleStore\<lparr>st_arrays := [extractEndpoints exampleRuntime exampleParser]\<rparr>)
   = (1, exampleStore\<lparr>st_arrays := [extractEndpoints exampleRuntime exampleParser,
                                        extractEndpoints exampleRuntime exampleParser]\<rparr>)"
  by (simp_all add: extractEndpoints_store_eq exampleStore_def)

theorem two_runs_identical_witness:
  "callSchemaToType 2 (RefSchema (js ''#/components/schemas/X'')) petStore
     = Some (js ''Y'', petStore\<lparr>st_sets := [[], [js ''Y'']]\<rparr>)
   \<and> callSchemaToType 5 (RefSchema (js ''#/components/schemas/X''))
       (petStore\<lparr>st_sets := [[], [js ''Y'']]\<rparr>)
     = Some (js ''Y'', petStore\<lparr>st_sets := [[], [js ''Y''], [], [js ''Y'']]\<rparr>)
   \<and> preserved petStore (petStore\<lparr>st_sets := [[], [js ''Y'']]\<rparr>)
   \<and> preserved (petStore\<lparr>st_sets := [[], [js ''Y'']]\<rparr>)
       (petStore\<lparr>st_sets := [[], [js ''Y''], [], [js ''Y'']]\<rparr>)
   \<and> (2::nat) \<le> 5
   \<and> st_parser (petStore\<lparr>st_sets := [[], [js ''Y'']]\<rparr>) = st_parser petStore
   \<and> map_option fst (callSchemaToType 2 (RefSchema (js ''#/components/schemas/X''))
                       (petStore\<lparr>st_sets := [[], [js ''Y'']]\<rparr>))
     = map_option fst (callSchemaToType 2 (RefSchema (js ''#/components/schemas/X'')) petStore)
   \<and> schemaToType 2 petParser (RefSchema (js ''#/components/schemas/X'')) {} = Some (js ''Y'')
   \<and> extractEndpoints_store exampleRuntime exampleStore
     = (0, exampleStore\<lparr>st_arrays := [extractEndpoints exampleRuntime exampleParser]\<rparr>)
   \<and> extractEndpoints_store exampleRuntime
       (exampleStore\<lparr>st_arrays := [extractEndpoints exampleRuntime exampleParser]\<rparr>)
     = (1, exampleStore\<lparr>st_arrays := [extractEndpoints exampleRuntime exampleParser,
                                          extractEndpoints exampleRuntime exampleParser]\<rparr>)
   \<and> Array_values 1
       (exampleStore\<lparr>st_arrays := [extractEndpoints exampleRuntime exampleParser,
                                    extractEndpoints exampleRuntime exampleParser]\<rparr>)
     = Array_values 0
         (exampleStore\<lparr>st_arrays := [extractEndpoints exampleRuntime exampleParser]\<rparr>)
   \<and> endpointKeys (Array_values 1
       (exampleStore\<lparr>st_arrays := [extractEndpoints exampleRuntime exampleParser,
                                    extractEndpoints exampleRuntime exampleParser]\<rparr>))
     = [(js ''/users/{id}/posts'', GET), (js ''/users/{id}/posts'', POST),
        (js ''/pets'', GET), (js ''/pets'', DELETE)]"
proof -
  let ?X = "RefSchema (js ''#/components/schemas/X'')"
  let ?h1 = "petStore\<lparr>st_sets := [[], [js ''Y'']]\<rparr>"
  let ?h2 = "petStore\<lparr>st_sets := [[], [js ''Y''], [], [js ''Y'']]\<rparr>"
  let ?es = "extractEndpoints exampleRuntime exampleParser"
  let ?g1 = "exampleStore\<lparr>st_arrays := [?es]\<rparr>"
  let ?g2 = "exampleStore\<lparr>st_arrays := [?es, ?es]\<rparr>"
  note inst = two_runs_identical [of 2 ?X petStore "js ''Y''" ?h1 5 "js ''Y''" ?h2 ?h1
      exampleRuntime exampleStore 0 ?g1 1 ?g2]
  have k: "st_parser ?h1 = st_parser petStore" by simp
  from inst k have e: "map_option fst (callSchemaToType 2 ?X ?h1)
      = map_option fst (callSchemaToType 2 ?X petStore)" by blast
  from inst aliasRuns have a: "preserved petStore ?h1 \<and> preserved ?h1 ?h2" by blast
  from inst aliasRuns have "map_option fst (callSchemaToType 2 ?X petStore)
      = schemaToType 2 (st_parser petStore) ?X {}" by blast
  with aliasRuns(1) have b: "schemaToType 2 petParser ?X {} = Some (js ''Y'')"
    by (simp add: petStore_def del: schemaToType.simps)
  from inst endpointRuns have c: "Array_values 1 ?g2 = Array_values 0 ?g1" by blast
  from inst endpointRuns have "Array_values 0 ?g1 = extractEndpoints exampleRuntime (st_parser exampleStore)"
    by blast
  with c have d: "endpointKeys (Array_values 1 ?g2)
     = [(js ''/users/{id}/posts'', GET), (js ''/users/{id}/posts'', POST),
        (js ''/pets'', GET), (js ''/pets'', DELETE)]"
    by (simp add: exampleStore_def endpointKeys_exampleParser)
  show ?thesis
    using aliasRuns endpointRuns a b c d e k by simp
qed


end
